theory Spec2Isabelle
  imports Complex_Main
begin

section \<open>Bi-Level Routing Attention (src/crat/bra\_legacy.py)\<close>

text \<open>
  A shallow embedding of \<^verbatim>\<open>TopkRouting\<close>, \<^verbatim>\<open>KVGather\<close>, \<^verbatim>\<open>QKVLinear\<close> and
  \<^verbatim>\<open>BiLevelRoutingAttention\<close>. Every \<^verbatim>\<open>raise\<close>, failed \<^verbatim>\<open>assert\<close> and library error is
  a value \<open>Inl e\<close> of the result type \<open>error + 'a\<close>.

  Conventions of the model:
  \<^item> a tensor is its shape together with its elements in row-major (contiguous) order;
    strides and storage sharing are not modelled, so \<^verbatim>\<open>view\<close> only replaces the shape;
  \<^item> floating-point entries are idealised as real numbers, so there is neither rounding,
    nor overflow, nor NaN; gradients (\<^verbatim>\<open>detach\<close>) are not modelled;
  \<^item> sizes (\<^verbatim>\<open>dim\<close>, \<^verbatim>\<open>n_win\<close>, \<^verbatim>\<open>topk\<close>, ...) are natural numbers;
  \<^item> the initial weights that \<^verbatim>\<open>nn.Linear\<close> draws at random are a parameter
    \<open>mk\<close> of the constructors.
\<close>

subsection \<open>Errors\<close>

datatype error =
    AssertionError
  | ValueError
  | NotImplementedError
  | AttributeError
  | ZeroDivisionError
  | IndexError
  | RuntimeError
  | EinopsError

definition bind_err :: "error + 'a \<Rightarrow> ('a \<Rightarrow> error + 'b) \<Rightarrow> error + 'b" where
  "bind_err r f = (case r of Inl e \<Rightarrow> Inl e | Inr v \<Rightarrow> f v)"

subsection \<open>Tensors\<close>

record 'a tensor =
  shape :: "nat list"
  data :: "'a list"

definition wf :: "'a tensor \<Rightarrow> bool" where
  "wf t = (length (data t) = prod_list (shape t))"

text \<open>Row-major offset of a multi-index, and the multi-index of an offset.\<close>

fun ravel :: "nat list \<Rightarrow> nat list \<Rightarrow> nat" where
  "ravel (d # s) (i # idx) = i * prod_list s + ravel s idx"
| "ravel _ _ = 0"

fun unravel :: "nat list \<Rightarrow> nat \<Rightarrow> nat list" where
  "unravel [] k = []"
| "unravel (d # s) k = (k div prod_list s) # unravel s (k mod prod_list s)"

definition in_range :: "nat list \<Rightarrow> nat list \<Rightarrow> bool" where
  "in_range s idx = list_all2 (\<lambda>i d. i < d) idx s"

definition item :: "'a tensor \<Rightarrow> nat list \<Rightarrow> 'a" where
  "item t idx = data t ! ravel (shape t) idx"

text \<open>The tensor of shape \<open>s\<close> whose entry at multi-index \<open>idx\<close> is \<open>f idx\<close>.\<close>

definition tabulate :: "nat list \<Rightarrow> (nat list \<Rightarrow> 'a) \<Rightarrow> 'a tensor" where
  "tabulate s f = \<lparr>shape = s, data = map (\<lambda>k. f (unravel s k)) [0..<prod_list s]\<rparr>"

text \<open>\<^verbatim>\<open>t.view(s)\<close> / \<^verbatim>\<open>t.reshape(s)\<close>: the same elements under another shape.\<close>

definition view :: "nat list \<Rightarrow> 'a tensor \<Rightarrow> error + 'a tensor" where
  "view s t = (if prod_list s = prod_list (shape t) then Inr (t\<lparr>shape := s\<rparr>) else Inl RuntimeError)"


subsection \<open>Shapes of the library operations\<close>

text \<open>\<^verbatim>\<open>F.pad(x, pads)\<close>: the pairs (left, right) of \<open>pads\<close> go to the last dimension first.\<close>

fun pad_rev :: "nat list \<Rightarrow> (nat \<times> nat) list \<Rightarrow> nat list" where
  "pad_rev (d # ds) ((l, r) # ps) = (l + d + r) # pad_rev ds ps"
| "pad_rev ds [] = ds"
| "pad_rev [] ps = []"

definition F_pad_shape :: "nat list \<Rightarrow> (nat \<times> nat) list \<Rightarrow> error + nat list" where
  "F_pad_shape s pads =
     (if length pads \<le> length s then Inr (rev (pad_rev (rev s) pads)) else Inl RuntimeError)"

text \<open>Broadcasting of two shapes, aligned at the last dimension.\<close>

fun bcast_rev :: "nat list \<Rightarrow> nat list \<Rightarrow> nat list option" where
  "bcast_rev [] ys = Some ys"
| "bcast_rev xs [] = Some xs"
| "bcast_rev (x # xs) (y # ys) =
     (if x = y \<or> y = 1 then map_option ((#) x) (bcast_rev xs ys)
      else if x = 1 then map_option ((#) y) (bcast_rev xs ys)
      else None)"

definition broadcast_shapes :: "nat list \<Rightarrow> nat list \<Rightarrow> nat list option" where
  "broadcast_shapes a b = map_option rev (bcast_rev (rev a) (rev b))"

text \<open>
  \<^verbatim>\<open>torch.matmul\<close>: a one-dimensional operand is promoted to a matrix and the added
  dimension removed again; the leading (batch) dimensions broadcast.
\<close>

definition matmul_shape :: "nat list \<Rightarrow> nat list \<Rightarrow> error + nat list" where
  "matmul_shape sa sb =
     (if sa = [] \<or> sb = [] then Inl RuntimeError
      else
        let sa' = (if length sa = 1 then 1 # sa else sa);
            sb' = (if length sb = 1 then sb @ [1] else sb)
        in if last sa' \<noteq> last (butlast sb') then Inl RuntimeError
           else case broadcast_shapes (butlast (butlast sa')) (butlast (butlast sb')) of
                  None \<Rightarrow> Inl RuntimeError
                | Some bc \<Rightarrow>
                    Inr (bc @ (if length sa = 1 then [] else [last (butlast sa')])
                            @ (if length sb = 1 then [] else [last sb'])))"

text \<open>\<^verbatim>\<open>t.transpose(-2, -1)\<close>.\<close>

definition transpose_last2_shape :: "nat list \<Rightarrow> error + nat list" where
  "transpose_last2_shape s =
     (if length s < 2 then Inl IndexError
      else Inr (butlast (butlast s) @ [last s, last (butlast s)]))"

text \<open>
  \<^verbatim>\<open>torch.topk(t, k, dim=-1)\<close> fails unless \<open>k\<close> is at most the size of the last
  dimension. Operands here have rank at least 1 (they come out of \<^verbatim>\<open>matmul\<close> with a
  transposed second operand).
\<close>

definition torch_topk_shape :: "nat \<Rightarrow> nat list \<Rightarrow> error + nat list" where
  "torch_topk_shape k s =
     (if s = [] then Inl IndexError
      else if k \<le> last s then Inr (butlast s @ [k])
      else Inl RuntimeError)"

subsection \<open>Modules and their constructors\<close>

text \<open>\<^verbatim>\<open>nn.Linear(in_features, out_features)\<close>; \<open>init\<close> stands for its random initialisation.\<close>

record Linear =
  in_features :: nat
  out_features :: nat
  weight :: "real tensor"
  bias :: "real tensor"

definition Linear_init :: "(nat \<Rightarrow> nat \<Rightarrow> real list \<times> real list) \<Rightarrow> nat \<Rightarrow> nat \<Rightarrow> Linear" where
  "Linear_init init i out =
     \<lparr>in_features = i, out_features = out,
      weight = \<lparr>shape = [out, i], data = fst (init i out)\<rparr>,
      bias = \<lparr>shape = [out], data = snd (init i out)\<rparr>\<rparr>"

definition Linear_shape :: "Linear \<Rightarrow> nat list \<Rightarrow> error + nat list" where
  "Linear_shape lin s =
     (if s \<noteq> [] \<and> last s = in_features lin then Inr (butlast s @ [out_features lin])
      else Inl RuntimeError)"

text \<open>A layer that is either \<^verbatim>\<open>nn.Linear\<close> or \<^verbatim>\<open>nn.Identity\<close> (\<open>None\<close>).\<close>

definition emb_shape :: "Linear option \<Rightarrow> nat list \<Rightarrow> error + nat list" where
  "emb_shape l s = (case l of None \<Rightarrow> Inr s | Some lin \<Rightarrow> Linear_shape lin s)"

text \<open>\<^verbatim>\<open>qk_scale or qk_dim ** -0.5\<close>: \<^verbatim>\<open>None\<close> and \<^verbatim>\<open>0.0\<close> are falsy; \<^verbatim>\<open>0 ** -0.5\<close> raises.\<close>

definition scale_or :: "real option \<Rightarrow> nat \<Rightarrow> error + real" where
  "scale_or qk_scale qk_dim =
     (case qk_scale of
        Some s \<Rightarrow>
          if s \<noteq> 0 then Inr s
          else if qk_dim = 0 then Inl ZeroDivisionError else Inr (1 / sqrt (real qk_dim))
      | None \<Rightarrow> if qk_dim = 0 then Inl ZeroDivisionError else Inr (1 / sqrt (real qk_dim)))"

record TopkRouting =
  r_topk :: nat
  r_qk_dim :: nat
  r_scale :: real
  r_diff_routing :: bool
  r_emb :: "Linear option"

definition TopkRouting_init ::
  "(nat \<Rightarrow> nat \<Rightarrow> real list \<times> real list) \<Rightarrow> nat \<Rightarrow> nat \<Rightarrow> real option \<Rightarrow> bool \<Rightarrow> bool
     \<Rightarrow> error + TopkRouting" where
  "TopkRouting_init init qk_dim topk qk_scale param_routing diff_routing =
     bind_err (scale_or qk_scale qk_dim) (\<lambda>s.
       Inr \<lparr>r_topk = topk, r_qk_dim = qk_dim, r_scale = s, r_diff_routing = diff_routing,
            r_emb = (if param_routing then Some (Linear_init init qk_dim qk_dim) else None)\<rparr>)"

record KVGather =
  mul_weight :: string

definition KVGather_init :: "string \<Rightarrow> error + KVGather" where
  "KVGather_init mw =
     (if mw \<in> set [''none'', ''soft'', ''hard''] then Inr \<lparr>mul_weight = mw\<rparr>
      else Inl AssertionError)"

record QKVLinear =
  l_dim :: nat
  l_qk_dim :: nat
  l_qkv :: Linear

definition QKVLinear_init :: "(nat \<Rightarrow> nat \<Rightarrow> real list \<times> real list) \<Rightarrow> nat \<Rightarrow> nat \<Rightarrow> QKVLinear" where
  "QKVLinear_init init d qk =
     \<lparr>l_dim = d, l_qk_dim = qk, l_qkv = Linear_init init d (qk + qk + d)\<rparr>"

text \<open>What \<^verbatim>\<open>self.kv_down\<close> is bound to.\<close>

datatype kv_down =
    Identity
  | AdaptiveAvgPool2d nat
  | AdaptiveMaxPool2d nat
  | MaxPool2d nat
  | AvgPool2d nat

text \<open>The arguments of \<^verbatim>\<open>BiLevelRoutingAttention.__init__\<close>.\<close>

record init_args =
  arg_topk :: nat
  arg_dim :: nat
  arg_num_heads :: nat
  arg_n_win :: nat
  arg_qk_dim :: "nat option"
  arg_qk_scale :: "real option"
  arg_kv_per_win :: "nat option"
  arg_kv_downsample_ratio :: "nat option"
  arg_kv_downsample_kernel :: "nat option"
  arg_kv_downsample_mode :: string
  arg_param_attention :: string
  arg_param_routing :: bool
  arg_diff_routing :: bool
  arg_soft_routing :: bool
  arg_side_dwconv :: nat
  arg_auto_pad :: bool

text \<open>The defaults of the signature, for the two required arguments \<open>topk\<close> and \<open>dim\<close>.\<close>

definition default_args :: "nat \<Rightarrow> nat \<Rightarrow> init_args" where
  "default_args tk d =
     \<lparr>arg_topk = tk, arg_dim = d, arg_num_heads = 8, arg_n_win = 7, arg_qk_dim = None,
      arg_qk_scale = None, arg_kv_per_win = Some 4, arg_kv_downsample_ratio = Some 4,
      arg_kv_downsample_kernel = None, arg_kv_downsample_mode = ''identity'',
      arg_param_attention = ''qkvo'', arg_param_routing = False, arg_diff_routing = False,
      arg_soft_routing = False, arg_side_dwconv = 3, arg_auto_pad = False\<rparr>"

record BiLevelRoutingAttention =
  dim' :: nat
  n_win :: nat
  num_heads :: nat
  qk_dim :: nat
  scale' :: real
  topk :: nat
  param_routing :: bool
  diff_routing :: bool
  soft_routing :: bool
  router :: TopkRouting
  kv_gather :: KVGather
  param_attention :: string
  qkv :: QKVLinear
  wo :: "Linear option"
  kv_downsample_mode :: string
  kv_per_win :: "nat option"
  kv_downsample_ratio :: "nat option"
  kv_downsample_kenel :: "nat option"
  kv_down :: kv_down
  auto_pad :: bool

text \<open>
  Lines 174 to 199, the chain on \<^verbatim>\<open>kv_downsample_mode\<close>. In the last branch the message
  of the \<^verbatim>\<open>ValueError\<close> reads \<^verbatim>\<open>self.kv_downsaple_mode\<close>, an attribute that is never set:
  evaluating the f-string raises \<^verbatim>\<open>AttributeError\<close> before the \<^verbatim>\<open>ValueError\<close> is built.
\<close>

definition select_kv_down :: "string \<Rightarrow> nat option \<Rightarrow> nat option \<Rightarrow> error + kv_down" where
  "select_kv_down mode per_win ratio =
     (if mode = ''ada_avgpool'' then
        (case per_win of None \<Rightarrow> Inl AssertionError | Some k \<Rightarrow> Inr (AdaptiveAvgPool2d k))
      else if mode = ''ada_maxpool'' then
        (case per_win of None \<Rightarrow> Inl AssertionError | Some k \<Rightarrow> Inr (AdaptiveMaxPool2d k))
      else if mode = ''maxpool'' then
        (case ratio of None \<Rightarrow> Inl AssertionError
         | Some r \<Rightarrow> Inr (if r > 1 then MaxPool2d r else Identity))
      else if mode = ''avgpool'' then
        (case ratio of None \<Rightarrow> Inl AssertionError
         | Some r \<Rightarrow> Inr (if r > 1 then AvgPool2d r else Identity))
      else if mode = ''identity'' then Inr Identity
      else if mode = ''fracpool'' then Inl NotImplementedError
      else if mode = ''conv'' then Inl NotImplementedError
      else Inl AttributeError)"

text \<open>Lines 151 to 156.\<close>

definition select_mul_weight :: "bool \<Rightarrow> bool \<Rightarrow> string" where
  "select_mul_weight soft diff =
     (if soft then ''soft'' else if diff then ''hard'' else ''none'')"

text \<open>Lines 161 to 168.\<close>

definition select_projection ::
  "(nat \<Rightarrow> nat \<Rightarrow> real list \<times> real list) \<Rightarrow> string \<Rightarrow> nat \<Rightarrow> nat
     \<Rightarrow> error + (QKVLinear \<times> Linear option)" where
  "select_projection init pa d qk =
     (if pa = ''qkvo'' then Inr (QKVLinear_init init d qk, Some (Linear_init init d d))
      else if pa = ''qkv'' then Inr (QKVLinear_init init d qk, None)
      else Inl ValueError)"

definition BiLevelRoutingAttention_init ::
  "(nat \<Rightarrow> nat \<Rightarrow> real list \<times> real list) \<Rightarrow> init_args \<Rightarrow> error + BiLevelRoutingAttention" where
  "BiLevelRoutingAttention_init init a =
     (let d = arg_dim a;
          qk = (case arg_qk_dim a of None \<Rightarrow> d | Some q \<Rightarrow> if q = 0 then d else q)
      in
      if arg_num_heads a = 0 then Inl ZeroDivisionError
      else if \<not> (qk mod arg_num_heads a = 0 \<and> d mod arg_num_heads a = 0) then Inl AssertionError
      else
        bind_err (scale_or (arg_qk_scale a) qk) (\<lambda>sc.
        if \<not> \<not> (arg_param_routing a \<and> \<not> arg_diff_routing a) then Inl AssertionError
        else
          bind_err (TopkRouting_init init qk (arg_topk a) (Some sc)
                      (arg_param_routing a) (arg_diff_routing a)) (\<lambda>rt.
          bind_err (KVGather_init
                      (select_mul_weight (arg_soft_routing a) (arg_diff_routing a))) (\<lambda>g.
          bind_err (select_projection init (arg_param_attention a) d qk) (\<lambda>(pq, po).
          bind_err (select_kv_down (arg_kv_downsample_mode a) (arg_kv_per_win a)
                      (arg_kv_downsample_ratio a)) (\<lambda>kd.
          Inr \<lparr>dim' = d, n_win = arg_n_win a, num_heads = arg_num_heads a, qk_dim = qk,
               scale' = sc, topk = arg_topk a, param_routing = arg_param_routing a,
               diff_routing = arg_diff_routing a, soft_routing = arg_soft_routing a,
               router = rt, kv_gather = g, param_attention = arg_param_attention a,
               qkv = pq, wo = po, kv_downsample_mode = arg_kv_downsample_mode a,
               kv_per_win = arg_kv_per_win a,
               kv_downsample_ratio = arg_kv_downsample_ratio a,
               kv_downsample_kenel = arg_kv_downsample_kernel a,
               kv_down = kd, auto_pad = arg_auto_pad a\<rparr>))))))"


subsection \<open>Shapes through the forward passes\<close>

definition view_shape :: "nat list \<Rightarrow> nat list \<Rightarrow> error + nat list" where
  "view_shape s' s = (if prod_list s' = prod_list s then Inr s' else Inl RuntimeError)"

text \<open>\<^verbatim>\<open>TopkRouting.forward\<close>, lines 51 to 58; both results have the shape of the top-k.\<close>

definition TopkRouting_forward_shape ::
  "TopkRouting \<Rightarrow> nat list \<Rightarrow> nat list \<Rightarrow> error + (nat list \<times> nat list)" where
  "TopkRouting_forward_shape rt query key =
     bind_err (emb_shape (r_emb rt) query) (\<lambda>query_hat.
     bind_err (emb_shape (r_emb rt) key) (\<lambda>key_hat.
     bind_err (transpose_last2_shape key_hat) (\<lambda>key_t.
     bind_err (matmul_shape query_hat key_t) (\<lambda>attn_logit.
     bind_err (torch_topk_shape (r_topk rt) attn_logit) (\<lambda>tk.
     Inr (tk, tk))))))"

text \<open>
  \<^verbatim>\<open>KVGather.forward\<close>, lines 77 to 93. The indices are taken to be in range, as those of
  \<^verbatim>\<open>torch.topk\<close> are; the value-level model below checks them.
\<close>

fun KVGather_forward_shape ::
  "KVGather \<Rightarrow> nat list \<Rightarrow> nat list \<Rightarrow> nat list \<Rightarrow> error + nat list" where
  "KVGather_forward_shape g r_idx r_weight [n, p2, w2, c_kv] =
     (if r_idx = [] then Inl IndexError
      else
        let k = last r_idx in
        bind_err (view_shape [n, 1, p2, w2, c_kv] [n, p2, w2, c_kv]) (\<lambda>_.
        bind_err (view_shape [n, p2, k, 1, 1] r_idx) (\<lambda>_.
        if mul_weight g = ''soft'' then
          bind_err (view_shape [n, p2, k, 1, 1] r_weight) (\<lambda>_. Inr [n, p2, k, w2, c_kv])
        else if mul_weight g = ''hard'' then Inl NotImplementedError
        else Inr [n, p2, k, w2, c_kv])))"
| "KVGather_forward_shape g r_idx r_weight kv = Inl ValueError"

text \<open>\<^verbatim>\<open>QKVLinear.forward\<close>, lines 106 to 109: the shapes of \<^verbatim>\<open>q, kv, k, v\<close>.\<close>

definition QKVLinear_forward_shape ::
  "QKVLinear \<Rightarrow> nat list \<Rightarrow> error + (nat list \<times> nat list \<times> nat list \<times> nat list)" where
  "QKVLinear_forward_shape l x =
     bind_err (Linear_shape (l_qkv l) x) (\<lambda>y.
       if l_qk_dim l + l_qk_dim l + l_dim l \<noteq> last y then Inl RuntimeError
       else Inr (butlast y @ [l_qk_dim l], butlast y @ [l_qk_dim l + l_dim l],
                 butlast y @ [l_qk_dim l], butlast y @ [l_dim l]))"

text \<open>The patterns of \<^verbatim>\<open>einops.rearrange\<close> that \<^verbatim>\<open>forward\<close> uses, on shapes.\<close>

text \<open>Line 252: \<^verbatim>\<open>n (q d) (j h) (i w) c -> n (q j i) d h w c\<close> with \<open>q = j = i = n_win\<close>.\<close>

fun rearrange_partition_shape :: "nat \<Rightarrow> nat list \<Rightarrow> error + nat list" where
  "rearrange_partition_shape nw [n, D, H, W, c] =
     (if nw = 0 \<or> D mod nw \<noteq> 0 \<or> H mod nw \<noteq> 0 \<or> W mod nw \<noteq> 0 then Inl EinopsError
      else Inr [n, nw * nw * nw, D div nw, H div nw, W div nw, c])"
| "rearrange_partition_shape nw s = Inl EinopsError"

text \<open>Line 271: \<^verbatim>\<open>n p3 d h w c -> n p3 (d h w) c\<close>.\<close>

fun rearrange_flatten_pixels_shape :: "nat list \<Rightarrow> error + nat list" where
  "rearrange_flatten_pixels_shape [n, p3, d, h, w, c] = Inr [n, p3, d * h * w, c]"
| "rearrange_flatten_pixels_shape s = Inl EinopsError"

text \<open>Line 272: \<^verbatim>\<open>n p3 d h w c -> (n p3) c d h w\<close>.\<close>

fun rearrange_channel_first_shape :: "nat list \<Rightarrow> error + nat list" where
  "rearrange_channel_first_shape [n, p3, d, h, w, c] = Inr [n * p3, c, d, h, w]"
| "rearrange_channel_first_shape s = Inl EinopsError"

text \<open>Line 273: \<^verbatim>\<open>(n q j i) c d h w -> n (q j i) (d h w) c\<close> with \<open>q = j = i = n_win\<close>.\<close>

fun rearrange_kv_pixels_shape :: "nat \<Rightarrow> nat list \<Rightarrow> error + nat list" where
  "rearrange_kv_pixels_shape nw [b, c, d, h, w] =
     (if nw * nw * nw = 0 \<or> b mod (nw * nw * nw) \<noteq> 0 then Inl EinopsError
      else Inr [b div (nw * nw * nw), nw * nw * nw, d * h * w, c])"
| "rearrange_kv_pixels_shape nw s = Inl EinopsError"

text \<open>Line 307: \<^verbatim>\<open>n p3 k w3 (m c) -> (n p3) m c (k w3)\<close> with \<open>m = num_heads\<close>.\<close>

fun rearrange_heads_k_shape :: "nat \<Rightarrow> nat list \<Rightarrow> error + nat list" where
  "rearrange_heads_k_shape m [n, p3, k, w3, mc] =
     (if m = 0 \<or> mc mod m \<noteq> 0 then Inl EinopsError
      else Inr [n * p3, m, mc div m, k * w3])"
| "rearrange_heads_k_shape m s = Inl EinopsError"

text \<open>Line 308: \<^verbatim>\<open>n p3 k w3 (m c) -> (n p3) m (k w3) c\<close>.\<close>

fun rearrange_heads_v_shape :: "nat \<Rightarrow> nat list \<Rightarrow> error + nat list" where
  "rearrange_heads_v_shape m [n, p3, k, w3, mc] =
     (if m = 0 \<or> mc mod m \<noteq> 0 then Inl EinopsError
      else Inr [n * p3, m, k * w3, mc div m])"
| "rearrange_heads_v_shape m s = Inl EinopsError"

text \<open>Line 309: \<^verbatim>\<open>n p3 w3 (m c) -> (n p3) m w3 c\<close>.\<close>

fun rearrange_heads_q_shape :: "nat \<Rightarrow> nat list \<Rightarrow> error + nat list" where
  "rearrange_heads_q_shape m [n, p3, w3, mc] =
     (if m = 0 \<or> mc mod m \<noteq> 0 then Inl EinopsError
      else Inr [n * p3, m, w3, mc div m])"
| "rearrange_heads_q_shape m s = Inl EinopsError"

text \<open>
  Lines 315 and 316: \<^verbatim>\<open>(n q j i) m (d h w) c -> n (q d) (j h) (i w) (m c)\<close> with
  \<open>q = j = i = n_win\<close> and \<open>d\<close>, \<open>h\<close>, \<open>w\<close> given.
\<close>

fun rearrange_reassemble_shape :: "nat \<Rightarrow> nat \<Rightarrow> nat \<Rightarrow> nat \<Rightarrow> nat list \<Rightarrow> error + nat list" where
  "rearrange_reassemble_shape nw d h w [b, m, l, c] =
     (if nw * nw * nw = 0 \<or> b mod (nw * nw * nw) \<noteq> 0 \<or> l \<noteq> d * h * w then Inl EinopsError
      else Inr [b div (nw * nw * nw), nw * d, nw * h, nw * w, m * c])"
| "rearrange_reassemble_shape nw d h w s = Inl EinopsError"

text \<open>\<^verbatim>\<open>t.mean([2, 3, 4])\<close> of a six-dimensional tensor.\<close>

fun mean_234_shape :: "nat list \<Rightarrow> error + nat list" where
  "mean_234_shape [n, p3, d, h, w, c] = Inr [n, p3, c]"
| "mean_234_shape s = Inl IndexError"

text \<open>\<^verbatim>\<open>t[..., 0:k]\<close>.\<close>

definition slice_last_shape :: "nat \<Rightarrow> nat list \<Rightarrow> error + nat list" where
  "slice_last_shape k s = (if s = [] then Inl IndexError else Inr (butlast s @ [min k (last s)]))"

text \<open>\<^verbatim>\<open>t.split([a, b], dim=-1)\<close>.\<close>

definition split2_shape :: "nat \<Rightarrow> nat \<Rightarrow> nat list \<Rightarrow> error + (nat list \<times> nat list)" where
  "split2_shape a b s =
     (if s = [] then Inl IndexError
      else if last s \<noteq> a + b then Inl RuntimeError
      else Inr (butlast s @ [a], butlast s @ [b]))"

text \<open>Line 328: \<^verbatim>\<open>out[:, :H_in, :W_in, :]\<close>, which slices dimensions 1 and 2.\<close>

fun crop_shape :: "nat \<Rightarrow> nat \<Rightarrow> nat list \<Rightarrow> error + nat list" where
  "crop_shape H_in W_in (n # D # H # rest) =
     (if rest = [] then Inl IndexError else Inr (n # min D H_in # min H W_in # rest))"
| "crop_shape H_in W_in s = Inl IndexError"

text \<open>
  \<^verbatim>\<open>self.kv_down\<close>: \<^verbatim>\<open>nn.Identity\<close>, or one of the pooling layers of the library, whose
  effect on a shape is the parameter \<open>pool\<close>.
\<close>

definition kv_down_shape ::
  "(kv_down \<Rightarrow> nat list \<Rightarrow> error + nat list) \<Rightarrow> kv_down \<Rightarrow> nat list \<Rightarrow> error + nat list" where
  "kv_down_shape pool kd s = (case kd of Identity \<Rightarrow> Inr s | _ \<Rightarrow> pool kd s)"

text \<open>
  \<^verbatim>\<open>BiLevelRoutingAttention.forward\<close> from line 252 to the call of the router (line 294):
  the shapes of \<^verbatim>\<open>q, k, v, q_pix, kv_pix, r_weight, r_idx\<close>.
\<close>

definition forward_route_shape ::
  "(kv_down \<Rightarrow> nat list \<Rightarrow> error + nat list) \<Rightarrow> BiLevelRoutingAttention \<Rightarrow> nat list
     \<Rightarrow> error + (nat list \<times> nat list \<times> nat list \<times> nat list \<times> nat list \<times> nat list \<times> nat list)" where
  "forward_route_shape pool m x0 =
     bind_err (rearrange_partition_shape (n_win m) x0) (\<lambda>x.
     bind_err (QKVLinear_forward_shape (qkv m) x) (\<lambda>(q, kv, k, v).
     bind_err (rearrange_flatten_pixels_shape q) (\<lambda>q_pix.
     bind_err (rearrange_channel_first_shape kv) (\<lambda>kv_cf.
     bind_err (kv_down_shape pool (kv_down m) kv_cf) (\<lambda>kv_ds.
     bind_err (rearrange_kv_pixels_shape (n_win m) kv_ds) (\<lambda>kv_pix.
     bind_err (mean_234_shape q) (\<lambda>q_win.
     bind_err (bind_err (slice_last_shape (qk_dim m) kv) mean_234_shape) (\<lambda>k_win.
     bind_err (TopkRouting_forward_shape (router m) q_win k_win) (\<lambda>(r_weight, r_idx).
     Inr (q, k, v, q_pix, kv_pix, r_weight, r_idx))))))))))"

text \<open>
  From line 302 to line 323, given the gathered \<^verbatim>\<open>kv_pix_sel\<close>: the shapes of
  \<^verbatim>\<open>out\<close> and \<^verbatim>\<open>attn_weight\<close>. \<open>D\<close>, \<open>H\<close>, \<open>W\<close> are the (padded) extents.
\<close>

definition forward_attend_shape ::
  "BiLevelRoutingAttention \<Rightarrow> nat \<Rightarrow> nat \<Rightarrow> nat \<Rightarrow> nat list \<Rightarrow> nat list
     \<Rightarrow> error + (nat list \<times> nat list)" where
  "forward_attend_shape m D H W q_pix kv_pix_sel =
     bind_err (split2_shape (qk_dim m) (dim' m) kv_pix_sel) (\<lambda>(k_pix_sel, v_pix_sel).
     bind_err (rearrange_heads_k_shape (num_heads m) k_pix_sel) (\<lambda>k_sel.
     bind_err (rearrange_heads_v_shape (num_heads m) v_pix_sel) (\<lambda>v_sel.
     bind_err (rearrange_heads_q_shape (num_heads m) q_pix) (\<lambda>q_h.
     bind_err (matmul_shape q_h k_sel) (\<lambda>attn_weight.
     bind_err (matmul_shape attn_weight v_sel) (\<lambda>out.
     bind_err (rearrange_reassemble_shape (n_win m)
                 (D div n_win m) (H div n_win m) (W div n_win m) out) (\<lambda>out.
     bind_err (emb_shape (wo m) out) (\<lambda>out.
     Inr (out, attn_weight)))))))))"

text \<open>
  Lines 240 to 323 on the (padded) input \<open>x\<close>: the shapes of
  \<^verbatim>\<open>out, r_weight, r_idx, attn_weight, q, k, v\<close>. Line 240 (and 242) unpack
  \<^verbatim>\<open>D, H, W\<close> from \<^verbatim>\<open>x.size()\<close>.
\<close>

definition forward_body_shape ::
  "(kv_down \<Rightarrow> nat list \<Rightarrow> error + nat list) \<Rightarrow> BiLevelRoutingAttention \<Rightarrow> nat list
     \<Rightarrow> error + (nat list \<times> nat list \<times> nat list \<times> nat list \<times> nat list \<times> nat list \<times> nat list)" where
  "forward_body_shape pool m x =
     (let D = x ! 1; H = x ! 2; W = x ! 3 in
      bind_err (forward_route_shape pool m x) (\<lambda>(q, k, v, q_pix, kv_pix, r_weight, r_idx).
      bind_err (KVGather_forward_shape (kv_gather m) r_idx r_weight kv_pix) (\<lambda>kv_pix_sel.
      bind_err (forward_attend_shape m D H W q_pix kv_pix_sel) (\<lambda>(out, attn_weight).
      Inr (out, r_weight, r_idx, attn_weight, q, k, v)))))"

text \<open>
  \<^verbatim>\<open>BiLevelRoutingAttention.forward\<close>, lines 229 to 333. The result is the returned tuple:
  for each component the name of the variable returned and the shape of its tensor.
\<close>

fun forward_shape ::
  "(kv_down \<Rightarrow> nat list \<Rightarrow> error + nat list) \<Rightarrow> BiLevelRoutingAttention \<Rightarrow> nat list \<Rightarrow> bool
     \<Rightarrow> error + (string \<times> nat list) list" where
  "forward_shape pool m [N, D_in, H_in, W_in, C] ret_attn_mask =
     (if n_win m = 0 then Inl ZeroDivisionError
      else
        let pad_d = (n_win m - D_in mod n_win m) mod n_win m;
            pad_r = (n_win m - W_in mod n_win m) mod n_win m;
            pad_b = (n_win m - H_in mod n_win m) mod n_win m
        in
        bind_err
          (if auto_pad m then
             F_pad_shape [N, D_in, H_in, W_in, C] [(0, 0), (0, pad_d), (0, pad_r), (0, pad_b)]
           else if D_in mod n_win m = 0 \<and> H_in mod n_win m = 0 \<and> W_in mod n_win m = 0
             then Inr [N, D_in, H_in, W_in, C]
           else Inl AssertionError) (\<lambda>x.
        bind_err (forward_body_shape pool m x) (\<lambda>(out, r_weight, r_idx, attn_weight, q, k, v).
        bind_err (if auto_pad m \<and> (pad_r > 0 \<or> pad_b > 0) then crop_shape H_in W_in out
                  else Inr out) (\<lambda>out.
        if ret_attn_mask then
          Inr [(''out'', out), (''r_weight'', r_weight), (''r_idx'', r_idx),
               (''attn_weight'', attn_weight), (''q'', q), (''k'', k), (''v'', v)]
        else
          Inr [(''out'', out), (''q'', q), (''k'', k), (''v'', v)]))))"
| "forward_shape pool m x ret_attn_mask = Inl ValueError"

subsection \<open>Example configurations\<close>

text \<open>An initialisation of the linear layers (all weights zero) for the examples.\<close>

definition zero_init :: "nat \<Rightarrow> nat \<Rightarrow> real list \<times> real list" where
  "zero_init i out = (replicate (out * i) 0, replicate out 0)"

text \<open>
  A pooling parameter for the examples; they use \<^verbatim>\<open>kv_downsample_mode='identity'\<close>, where
  pooling is never reached.
\<close>

definition unused_pool :: "kv_down \<Rightarrow> nat list \<Rightarrow> error + nat list" where
  "unused_pool kd s = Inl RuntimeError"

text \<open>
  The end-to-end scenario: \<^verbatim>\<open>topk=4, dim=32, num_heads=4, n_win=2, qk_dim=32\<close>, the other
  arguments at their defaults.
\<close>

definition scenario_args :: init_args where
  "scenario_args = (default_args 4 32)\<lparr>arg_num_heads := 4, arg_n_win := 2, arg_qk_dim := Some 32\<rparr>"


text \<open>
  The module that the constructor returns for \<open>scenario_args\<close> with the given
  \<^verbatim>\<open>diff_routing\<close> and \<^verbatim>\<open>auto_pad\<close>.
\<close>

definition scenario_module :: "(nat \<Rightarrow> nat \<Rightarrow> real list \<times> real list) \<Rightarrow> bool \<Rightarrow> bool \<Rightarrow> BiLevelRoutingAttention" where
  "scenario_module init diff ap =
     \<lparr>dim' = 32, n_win = 2, num_heads = 4, qk_dim = 32, scale' = 1 / sqrt 32, topk = 4,
      param_routing = False, diff_routing = diff, soft_routing = False,
      router = \<lparr>r_topk = 4, r_qk_dim = 32, r_scale = 1 / sqrt 32, r_diff_routing = diff,
                r_emb = None\<rparr>,
      kv_gather = \<lparr>mul_weight = (if diff then ''hard'' else ''none'')\<rparr>,
      param_attention = ''qkvo'',
      qkv = QKVLinear_init init 32 32, wo = Some (Linear_init init 32 32),
      kv_downsample_mode = ''identity'', kv_per_win = Some 4,
      kv_downsample_ratio = Some 4, kv_downsample_kenel = None, kv_down = Identity,
      auto_pad = ap\<rparr>"


subsection \<open>A second configuration and the pooling layers\<close>

text \<open>
  The scenario with \<^verbatim>\<open>qk_dim=16\<close>, half of \<^verbatim>\<open>dim\<close>: queries and keys have 16
  channels, values 32. \<open>narrow_module\<close> is what the constructor returns for it with the
  initialisation \<open>zero_init\<close>.
\<close>

definition narrow_args :: init_args where
  "narrow_args = scenario_args\<lparr>arg_qk_dim := Some 16\<rparr>"

definition narrow_module :: BiLevelRoutingAttention where
  "narrow_module =
     \<lparr>dim' = 32, n_win = 2, num_heads = 4, qk_dim = 16, scale' = 1 / sqrt 16, topk = 4,
      param_routing = False, diff_routing = False, soft_routing = False,
      router = \<lparr>r_topk = 4, r_qk_dim = 16, r_scale = 1 / sqrt 16, r_diff_routing = False,
                r_emb = None\<rparr>,
      kv_gather = \<lparr>mul_weight = ''none''\<rparr>,
      param_attention = ''qkvo'',
      qkv = QKVLinear_init zero_init 32 16, wo = Some (Linear_init zero_init 32 32),
      kv_downsample_mode = ''identity'', kv_per_win = Some 4,
      kv_downsample_ratio = Some 4, kv_downsample_kenel = None, kv_down = Identity,
      auto_pad = False\<rparr>"

text \<open>
  What is known of the pooling layers of the library: where they accept an input
  \<open>(b, c, d, h, w)\<close>, they pool the trailing dimensions and keep \<open>b\<close> and
  \<open>c\<close>.
\<close>

definition pool_keeps_layout :: "(kv_down \<Rightarrow> nat list \<Rightarrow> error + nat list) \<Rightarrow> bool" where
  "pool_keeps_layout pool =
     (\<forall>kd b c d h w s. pool kd [b, c, d, h, w] = Inr s \<longrightarrow> (\<exists>d' h' w'. s = [b, c, d', h', w']))"

section \<open>Values\<close>

subsection \<open>Library operations on tensors\<close>

text \<open>The index into an operand of shape \<open>s\<close> that a broadcast index \<open>idx\<close> reads.\<close>

definition bcast_index :: "nat list \<Rightarrow> nat list \<Rightarrow> nat list" where
  "bcast_index s idx =
     map2 (\<lambda>d i. if d = 1 then 0 else i) s (drop (length idx - length s) idx)"

text \<open>\<^verbatim>\<open>t * c\<close> for a number \<open>c\<close>.\<close>

definition scalar_mul :: "real \<Rightarrow> real tensor \<Rightarrow> real tensor" where
  "scalar_mul c t = t\<lparr>data := map (\<lambda>v. v * c) (data t)\<rparr>"

text \<open>\<^verbatim>\<open>a * b\<close> for two tensors, with broadcasting.\<close>

definition mul :: "real tensor \<Rightarrow> real tensor \<Rightarrow> error + real tensor" where
  "mul a b =
     (case broadcast_shapes (shape a) (shape b) of
        None \<Rightarrow> Inl RuntimeError
      | Some s \<Rightarrow>
          Inr (tabulate s (\<lambda>idx.
                 item a (bcast_index (shape a) idx) * item b (bcast_index (shape b) idx))))"

text \<open>\<^verbatim>\<open>t.transpose(-2, -1)\<close>.\<close>

definition transpose_last2 :: "'a tensor \<Rightarrow> error + 'a tensor" where
  "transpose_last2 t =
     bind_err (transpose_last2_shape (shape t)) (\<lambda>s'.
       Inr (tabulate s' (\<lambda>idx.
              item t (butlast (butlast idx) @ [last idx, last (butlast idx)]))))"

text \<open>\<^verbatim>\<open>a @ b\<close> (\<^verbatim>\<open>torch.matmul\<close>).\<close>

definition matmul :: "real tensor \<Rightarrow> real tensor \<Rightarrow> error + real tensor" where
  "matmul a b =
     bind_err (matmul_shape (shape a) (shape b)) (\<lambda>s'.
       let sa = (if length (shape a) = 1 then 1 # shape a else shape a);
           sb = (if length (shape b) = 1 then shape b @ [1] else shape b);
           ba = butlast (butlast sa);
           bb = butlast (butlast sb)
       in case broadcast_shapes ba bb of
            None \<Rightarrow> Inl RuntimeError
          | Some bc \<Rightarrow>
              Inr ((tabulate (bc @ [last (butlast sa), last sb]) (\<lambda>idx.
                      let bi = butlast (butlast idx); i = last (butlast idx); j = last idx in
                      sum_list (map (\<lambda>c.
                          item (a\<lparr>shape := sa\<rparr>) (bcast_index ba bi @ [i, c])
                        * item (b\<lparr>shape := sb\<rparr>) (bcast_index bb bi @ [c, j]))
                        [0..<last sa])))
                   \<lparr>shape := s'\<rparr>))"

text \<open>\<^verbatim>\<open>F.linear(x, weight, bias)\<close>, the forward pass of \<^verbatim>\<open>nn.Linear\<close>.\<close>

definition Linear_forward :: "Linear \<Rightarrow> real tensor \<Rightarrow> error + real tensor" where
  "Linear_forward lin x =
     bind_err (Linear_shape lin (shape x)) (\<lambda>s'.
       Inr (tabulate s' (\<lambda>idx.
              sum_list (map (\<lambda>i. item x (butlast idx @ [i]) * item (weight lin) [last idx, i])
                          [0..<in_features lin])
              + item (bias lin) [last idx])))"

definition emb :: "Linear option \<Rightarrow> real tensor \<Rightarrow> error + real tensor" where
  "emb l x = (case l of None \<Rightarrow> Inr x | Some lin \<Rightarrow> Linear_forward lin x)"

text \<open>
  The \<open>k\<close> largest entries of a list with their positions, largest first. Among equal
  entries the library's order is unspecified; the model takes the lower position first
  (a stable sort).
\<close>

definition topk_list :: "nat \<Rightarrow> real list \<Rightarrow> (real \<times> nat) list" where
  "topk_list k xs = take k (sort_key (\<lambda>(v, i). - v) (zip xs [0..<length xs]))"

text \<open>The entries of \<open>t\<close> along the last dimension, below the index prefix \<open>pre\<close>.\<close>

definition row :: "'a tensor \<Rightarrow> nat list \<Rightarrow> 'a list" where
  "row t pre = map (\<lambda>j. item t (pre @ [j])) [0..<last (shape t)]"

text \<open>\<^verbatim>\<open>torch.topk(t, k, dim=-1)\<close>: values and indices.\<close>

definition torch_topk :: "nat \<Rightarrow> real tensor \<Rightarrow> error + (real tensor \<times> nat tensor)" where
  "torch_topk k t =
     bind_err (torch_topk_shape k (shape t)) (\<lambda>s'.
       Inr (tabulate s' (\<lambda>idx. fst (topk_list k (row t (butlast idx)) ! last idx)),
            tabulate s' (\<lambda>idx. snd (topk_list k (row t (butlast idx)) ! last idx))))"

text \<open>\<^verbatim>\<open>nn.Softmax(dim=-1)\<close>; of a zero-dimensional tensor it is 1.\<close>

definition softmax :: "real tensor \<Rightarrow> real tensor" where
  "softmax t =
     (if shape t = [] then t\<lparr>data := map (\<lambda>v. 1) (data t)\<rparr>
      else tabulate (shape t) (\<lambda>idx.
             exp (item t idx) / sum_list (map exp (row t (butlast idx)))))"

text \<open>
  \<^verbatim>\<open>t.expand(sizes)\<close>, where \<open>None\<close> stands for \<^verbatim>\<open>-1\<close> (keep the size). The shapes are
  compared from the last dimension.
\<close>

fun expand_rev :: "nat list \<Rightarrow> nat option list \<Rightarrow> nat list option" where
  "expand_rev [] [] = Some []"
| "expand_rev [] (Some n # zs) = map_option ((#) n) (expand_rev [] zs)"
| "expand_rev [] (None # zs) = None"
| "expand_rev (d # ds) [] = None"
| "expand_rev (d # ds) (None # zs) = map_option ((#) d) (expand_rev ds zs)"
| "expand_rev (d # ds) (Some n # zs) =
     (if d = n \<or> d = 1 then map_option ((#) n) (expand_rev ds zs) else None)"

definition expand :: "nat option list \<Rightarrow> 'a tensor \<Rightarrow> error + 'a tensor" where
  "expand sizes t =
     (case map_option rev (expand_rev (rev (shape t)) (rev sizes)) of
        None \<Rightarrow> Inl RuntimeError
      | Some s' \<Rightarrow> Inr (tabulate s' (\<lambda>idx. item t (bcast_index (shape t) idx))))"

text \<open>
  \<^verbatim>\<open>torch.gather(inp, d, index)\<close>: the result has the shape of \<open>index\<close>, and its entry
  at \<open>idx\<close> is the entry of \<open>inp\<close> at \<open>idx\<close> with position \<open>d\<close> replaced by
  \<open>index[idx]\<close>. An index that is out of range is an error.
\<close>

definition gather :: "'a tensor \<Rightarrow> nat \<Rightarrow> nat tensor \<Rightarrow> error + 'a tensor" where
  "gather inp d index =
     (if length (shape inp) \<noteq> length (shape index) then Inl RuntimeError
      else if length (shape inp) \<le> d then Inl IndexError
      else if \<not> list_all (\<lambda>a. a = d \<or> shape index ! a \<le> shape inp ! a)
                  [0..<length (shape inp)] then Inl RuntimeError
      else if \<not> list_all (\<lambda>v. v < shape inp ! d)
                  (take (prod_list (shape index)) (data index)) then Inl RuntimeError
      else Inr (tabulate (shape index) (\<lambda>idx. item inp (idx[d := item index idx]))))"

text \<open>\<^verbatim>\<open>t.permute(p)\<close>: dimension \<open>i\<close> of the result is dimension \<open>p ! i\<close> of \<open>t\<close>.\<close>

fun pos :: "nat list \<Rightarrow> nat \<Rightarrow> nat" where
  "pos [] d = 0"
| "pos (a # p) d = (if a = d then 0 else Suc (pos p d))"

definition permute :: "nat list \<Rightarrow> 'a tensor \<Rightarrow> 'a tensor" where
  "permute p t =
     tabulate (map (\<lambda>a. shape t ! a) p)
       (\<lambda>idx. item t (map (\<lambda>d. idx ! pos p d) [0..<length p]))"

text \<open>\<^verbatim>\<open>t.split([a, b], dim=-1)\<close>.\<close>

definition split2 :: "nat \<Rightarrow> nat \<Rightarrow> 'a tensor \<Rightarrow> error + ('a tensor \<times> 'a tensor)" where
  "split2 a b t =
     bind_err (split2_shape a b (shape t)) (\<lambda>(s1, s2).
       Inr (tabulate s1 (\<lambda>idx. item t idx),
            tabulate s2 (\<lambda>idx. item t (butlast idx @ [a + last idx]))))"

subsection \<open>The router and the gatherer\<close>

text \<open>
  \<^verbatim>\<open>TopkRouting.forward\<close>, lines 51 to 54: the affinity matrix \<^verbatim>\<open>attn_logit\<close>.
  \<^verbatim>\<open>detach\<close> leaves the values as they are.
\<close>

definition TopkRouting_logits ::
  "TopkRouting \<Rightarrow> real tensor \<Rightarrow> real tensor \<Rightarrow> error + real tensor" where
  "TopkRouting_logits rt query key =
     bind_err (emb (r_emb rt) query) (\<lambda>query_hat.
     bind_err (emb (r_emb rt) key) (\<lambda>key_hat.
     bind_err (transpose_last2 key_hat) (\<lambda>key_t.
     matmul (scalar_mul (r_scale rt) query_hat) key_t)))"

text \<open>\<^verbatim>\<open>TopkRouting.forward\<close>, lines 51 to 58: \<^verbatim>\<open>(r_weight, topk_index)\<close>.\<close>

definition TopkRouting_forward ::
  "TopkRouting \<Rightarrow> real tensor \<Rightarrow> real tensor \<Rightarrow> error + (real tensor \<times> nat tensor)" where
  "TopkRouting_forward rt query key =
     bind_err (TopkRouting_logits rt query key) (\<lambda>attn_logit.
     bind_err (torch_topk (r_topk rt) attn_logit) (\<lambda>(topk_attn_logit, topk_index).
     Inr (softmax topk_attn_logit, topk_index)))"

text \<open>\<^verbatim>\<open>KVGather.forward\<close>, lines 77 to 93.\<close>

definition KVGather_forward ::
  "KVGather \<Rightarrow> nat tensor \<Rightarrow> real tensor \<Rightarrow> real tensor \<Rightarrow> error + real tensor" where
  "KVGather_forward g r_idx r_weight kv =
     (case shape kv of
        [n, p2, w2, c_kv] \<Rightarrow>
          if shape r_idx = [] then Inl IndexError
          else
            let k = last (shape r_idx) in
            bind_err (view [n, 1, p2, w2, c_kv] kv) (\<lambda>kv5.
            bind_err (expand [None, Some p2, None, None, None] kv5) (\<lambda>kv_all.
            bind_err (view [n, p2, k, 1, 1] r_idx) (\<lambda>idx5.
            bind_err (expand [None, None, None, Some w2, Some c_kv] idx5) (\<lambda>idx_all.
            bind_err (gather kv_all 2 idx_all) (\<lambda>topk_kv.
            if mul_weight g = ''soft'' then
              bind_err (view [n, p2, k, 1, 1] r_weight) (\<lambda>w5. mul w5 topk_kv)
            else if mul_weight g = ''hard'' then Inl NotImplementedError
            else Inr topk_kv)))))
      | _ \<Rightarrow> Inl ValueError)"

subsection \<open>Example tensors\<close>

text \<open>
  A router without parameters and with scale 1, and the summaries of two windows with one
  channel: the affinity matrix of \<open>example_windows\<close> with itself is
  \<open>[[1, 2], [2, 4]]\<close>.
\<close>

definition example_router :: "nat \<Rightarrow> TopkRouting" where
  "example_router k =
     \<lparr>r_topk = k, r_qk_dim = 1, r_scale = 1, r_diff_routing = False, r_emb = None\<rparr>"

definition example_windows :: "real tensor" where
  "example_windows = \<lparr>shape = [1, 2, 1], data = [1, 2]\<rparr>"

text \<open>
  Two windows of one pixel and one channel, indices that select window 1 for query window
  0 and window 0 for query window 1, and a weight for each selection.
\<close>

definition example_kv :: "real tensor" where
  "example_kv = \<lparr>shape = [1, 2, 1, 1], data = [10, 20]\<rparr>"

definition example_idx :: "nat tensor" where
  "example_idx = \<lparr>shape = [1, 2, 1], data = [1, 0]\<rparr>"

definition example_weight :: "real tensor" where
  "example_weight = \<lparr>shape = [1, 2, 1], data = [1 / 2, 1 / 4]\<rparr>"

subsection \<open>The patterns of \<^verbatim>\<open>einops.rearrange\<close> on values\<close>

text \<open>
  \<^verbatim>\<open>rearrange\<close> splits the composite axes of the input by a reshape, permutes the
  elementary axes, and merges the composite axes of the output by a reshape. The shape
  functions above have checked the pattern before the data are moved.
\<close>

text \<open>Line 252: \<^verbatim>\<open>n (q d) (j h) (i w) c -> n (q j i) d h w c\<close>.\<close>

definition rearrange_partition :: "nat \<Rightarrow> 'a tensor \<Rightarrow> error + 'a tensor" where
  "rearrange_partition nw t =
     bind_err (rearrange_partition_shape nw (shape t)) (\<lambda>s'.
       case shape t of
         [n, D, H, W, c] \<Rightarrow>
           Inr ((permute [0, 1, 3, 5, 2, 4, 6, 7]
                   (t\<lparr>shape := [n, nw, D div nw, nw, H div nw, nw, W div nw, c]\<rparr>))
                \<lparr>shape := s'\<rparr>)
       | _ \<Rightarrow> Inl EinopsError)"

text \<open>Line 271: \<^verbatim>\<open>n p3 d h w c -> n p3 (d h w) c\<close>, no axis moves.\<close>

definition rearrange_flatten_pixels :: "'a tensor \<Rightarrow> error + 'a tensor" where
  "rearrange_flatten_pixels t =
     bind_err (rearrange_flatten_pixels_shape (shape t)) (\<lambda>s'. Inr (t\<lparr>shape := s'\<rparr>))"

text \<open>Line 309: \<^verbatim>\<open>n p3 w3 (m c) -> (n p3) m w3 c\<close>.\<close>

definition rearrange_heads_q :: "nat \<Rightarrow> 'a tensor \<Rightarrow> error + 'a tensor" where
  "rearrange_heads_q m t =
     bind_err (rearrange_heads_q_shape m (shape t)) (\<lambda>s'.
       case shape t of
         [n, p3, w3, mc] \<Rightarrow>
           Inr ((permute [0, 1, 3, 2, 4] (t\<lparr>shape := [n, p3, w3, m, mc div m]\<rparr>))
                \<lparr>shape := s'\<rparr>)
       | _ \<Rightarrow> Inl EinopsError)"

text \<open>Line 307: \<^verbatim>\<open>n p3 k w3 (m c) -> (n p3) m c (k w3)\<close>.\<close>

definition rearrange_heads_k :: "nat \<Rightarrow> 'a tensor \<Rightarrow> error + 'a tensor" where
  "rearrange_heads_k m t =
     bind_err (rearrange_heads_k_shape m (shape t)) (\<lambda>s'.
       case shape t of
         [n, p3, k, w3, mc] \<Rightarrow>
           Inr ((permute [0, 1, 4, 5, 2, 3] (t\<lparr>shape := [n, p3, k, w3, m, mc div m]\<rparr>))
                \<lparr>shape := s'\<rparr>)
       | _ \<Rightarrow> Inl EinopsError)"

text \<open>Line 308: \<^verbatim>\<open>n p3 k w3 (m c) -> (n p3) m (k w3) c\<close>.\<close>

definition rearrange_heads_v :: "nat \<Rightarrow> 'a tensor \<Rightarrow> error + 'a tensor" where
  "rearrange_heads_v m t =
     bind_err (rearrange_heads_v_shape m (shape t)) (\<lambda>s'.
       case shape t of
         [n, p3, k, w3, mc] \<Rightarrow>
           Inr ((permute [0, 1, 4, 2, 3, 5] (t\<lparr>shape := [n, p3, k, w3, m, mc div m]\<rparr>))
                \<lparr>shape := s'\<rparr>)
       | _ \<Rightarrow> Inl EinopsError)"

text \<open>
  Lines 315 and 316: \<^verbatim>\<open>(n q j i) m (d h w) c -> n (q d) (j h) (i w) (m c)\<close>.
\<close>

definition rearrange_reassemble ::
  "nat \<Rightarrow> nat \<Rightarrow> nat \<Rightarrow> nat \<Rightarrow> 'a tensor \<Rightarrow> error + 'a tensor" where
  "rearrange_reassemble nw d h w t =
     bind_err (rearrange_reassemble_shape nw d h w (shape t)) (\<lambda>s'.
       case shape t of
         [b, m, l, c] \<Rightarrow>
           Inr ((permute [0, 1, 5, 2, 6, 3, 7, 4, 8]
                   (t\<lparr>shape := [b div (nw * nw * nw), nw, nw, nw, m, d, h, w, c]\<rparr>))
                \<lparr>shape := s'\<rparr>)
       | _ \<Rightarrow> Inl EinopsError)"

text \<open>
  Partition followed at once by reassembly, with nothing computed in between: lines 252,
  271 and 309 take the input to the layout that lines 315 and 316 read. \<open>m\<close> is the
  number of heads.
\<close>

definition partition_reassemble :: "nat \<Rightarrow> nat \<Rightarrow> 'a tensor \<Rightarrow> error + 'a tensor" where
  "partition_reassemble nw m x =
     bind_err (rearrange_partition nw x) (\<lambda>x1.
     bind_err (rearrange_flatten_pixels x1) (\<lambda>x2.
     bind_err (rearrange_heads_q m x2) (\<lambda>x3.
     rearrange_reassemble nw (shape x ! 1 div nw) (shape x ! 2 div nw) (shape x ! 3 div nw) x3)))"

text \<open>An activation of shape \<open>(1, 2, 4, 2, 1)\<close> whose entries are their own offsets.\<close>

definition example_activation :: "nat tensor" where
  "example_activation = \<lparr>shape = [1, 2, 4, 2, 1], data = [0..<16]\<rparr>"

subsection \<open>Routed attention\<close>

text \<open>
  \<^verbatim>\<open>BiLevelRoutingAttention.forward\<close>, lines 302 to 314, given the gathered
  \<^verbatim>\<open>kv_pix_sel\<close>: \<^verbatim>\<open>out\<close> (before line 315) and \<^verbatim>\<open>attn_weight\<close>.
\<close>

definition forward_attend ::
  "BiLevelRoutingAttention \<Rightarrow> real tensor \<Rightarrow> real tensor \<Rightarrow> error + (real tensor \<times> real tensor)" where
  "forward_attend m q_pix kv_pix_sel =
     bind_err (split2 (qk_dim m) (dim' m) kv_pix_sel) (\<lambda>(k_pix_sel, v_pix_sel).
     bind_err (rearrange_heads_k (num_heads m) k_pix_sel) (\<lambda>k_sel.
     bind_err (rearrange_heads_v (num_heads m) v_pix_sel) (\<lambda>v_sel.
     bind_err (rearrange_heads_q (num_heads m) q_pix) (\<lambda>q_h.
     bind_err (matmul (scalar_mul (scale' m) q_h) k_sel) (\<lambda>attn_logit.
     bind_err (matmul (softmax attn_logit) v_sel) (\<lambda>out.
     Inr (out, softmax attn_logit)))))))"

text \<open>Lines 294 to 314: route, gather, attend.\<close>

definition forward_routed_attention ::
  "BiLevelRoutingAttention \<Rightarrow> real tensor \<Rightarrow> real tensor \<Rightarrow> real tensor \<Rightarrow> real tensor
     \<Rightarrow> error + (real tensor \<times> real tensor)" where
  "forward_routed_attention m q_win k_win q_pix kv_pix =
     bind_err (TopkRouting_forward (router m) q_win k_win) (\<lambda>(r_weight, r_idx).
     bind_err (KVGather_forward (kv_gather m) r_idx r_weight kv_pix) (\<lambda>kv_pix_sel.
     forward_attend m q_pix kv_pix_sel))"

subsection \<open>Unrestricted windowed attention, after the specification\<close>

text \<open>
  Scaled dot-product attention of one query \<open>qf\<close> (with \<open>cq\<close> channels) against
  \<open>len\<close> keys \<open>kf\<close> and values \<open>vf\<close>, as section 4.5 of the specification has it:
  the logits are \<open>(q \<cdot> scale) \<cdot> k\<close>, the softmax runs over all \<open>len\<close> positions, and
  the output is the combination of the values with these weights.
\<close>

definition attend_entry ::
  "nat \<Rightarrow> nat \<Rightarrow> real \<Rightarrow> (nat \<Rightarrow> real) \<Rightarrow> (nat \<Rightarrow> nat \<Rightarrow> real) \<Rightarrow> (nat \<Rightarrow> real) \<Rightarrow> real" where
  "attend_entry len cq sc qf kf vf =
     sum_list (map (\<lambda>l.
         exp (sum_list (map (\<lambda>cc. qf cc * sc * kf l cc) [0..<cq]))
       / sum_list (map (\<lambda>l'. exp (sum_list (map (\<lambda>cc. qf cc * sc * kf l' cc) [0..<cq])))
                       [0..<len])
       * vf l) [0..<len])"

text \<open>
  Every query window attends to all pixels of all windows of the pooled \<^verbatim>\<open>kv_pix\<close>, head
  by head: position \<open>l\<close> of the key/value sequence is pixel \<open>l mod w2\<close> of window
  \<open>l div w2\<close>. The result is laid out as \<^verbatim>\<open>out\<close> is after line 314:
  (batch and window, head, query pixel, channel of the head).
\<close>

definition unrestricted_attention ::
  "BiLevelRoutingAttention \<Rightarrow> real tensor \<Rightarrow> real tensor \<Rightarrow> real tensor" where
  "unrestricted_attention m q_pix kv_pix =
     (let n = shape q_pix ! 0; p3 = shape q_pix ! 1; w3 = shape q_pix ! 2;
          p2 = shape kv_pix ! 1; w2 = shape kv_pix ! 2;
          cq = qk_dim m div num_heads m; cv = dim' m div num_heads m
      in tabulate [n * p3, num_heads m, w3, cv] (\<lambda>idx.
           let b = idx ! 0 div p3; i = idx ! 0 mod p3; h = idx ! 1; x = idx ! 2; c = idx ! 3
           in attend_entry (p2 * w2) cq (scale' m)
                (\<lambda>cc. item q_pix [b, i, x, h * cq + cc])
                (\<lambda>l cc. item kv_pix [b, l div w2, l mod w2, h * cq + cc])
                (\<lambda>l. item kv_pix [b, l div w2, l mod w2, qk_dim m + h * cv + c])))"

subsection \<open>Eight windows of one pixel\<close>





definition zero_pixels :: "real tensor" where
  "zero_pixels = \<lparr>shape = [1, 8, 1, 1], data = replicate 8 0\<rparr>"


section \<open>Properties\<close>

subsection \<open>Auxiliary facts\<close>

lemma bind_err_simps [simp]:
  "bind_err (Inl e) f = Inl e"
  "bind_err (Inr v) f = f v"
  by (simp_all add: bind_err_def)

lemma bind_err_Inr_iff: "bind_err r f = Inr y \<longleftrightarrow> (\<exists>v. r = Inr v \<and> f v = Inr y)"
  by (cases r) simp_all

lemmas shape_defs = F_pad_shape_def forward_route_shape_def forward_attend_shape_def
  forward_body_shape_def
  QKVLinear_forward_shape_def QKVLinear_init_def Linear_init_def Linear_shape_def emb_shape_def
  kv_down_shape_def slice_last_shape_def split2_shape_def TopkRouting_forward_shape_def
  transpose_last2_shape_def matmul_shape_def broadcast_shapes_def torch_topk_shape_def
  view_shape_def Let_def

lemmas init_defs = BiLevelRoutingAttention_init_def scenario_args_def default_args_def
  scale_or_def TopkRouting_init_def KVGather_init_def select_mul_weight_def
  select_projection_def select_kv_down_def

lemma scenario_init:
  "BiLevelRoutingAttention_init init
     (scenario_args\<lparr>arg_diff_routing := diff, arg_auto_pad := ap\<rparr>) =
   Inr (scenario_module init diff ap)"
  by (simp add: init_defs scenario_module_def)

subsection \<open>The constructor\<close>

text \<open>
  Claim C6 (amended). Constructing \<^verbatim>\<open>BiLevelRoutingAttention\<close> with
  \<^verbatim>\<open>param_routing=True\<close> and \<^verbatim>\<open>diff_routing=False\<close> always fails: with the
  \<^verbatim>\<open>AssertionError\<close> of line 145, unless line 131 or 132 has failed before (their
  \<^verbatim>\<open>AssertionError\<close> or \<^verbatim>\<open>ZeroDivisionError\<close>).
\<close>

theorem init_param_routing_needs_diff_routing:
  assumes "arg_param_routing a" and "\<not> arg_diff_routing a"
  shows "BiLevelRoutingAttention_init init a = Inl AssertionError
       \<or> BiLevelRoutingAttention_init init a = Inl ZeroDivisionError"
  using assms
  by (auto simp: BiLevelRoutingAttention_init_def Let_def scale_or_def split: option.splits)

theorem init_param_routing_needs_diff_routing_witness:
  "arg_param_routing (scenario_args\<lparr>arg_param_routing := True\<rparr>)
   \<and> \<not> arg_diff_routing (scenario_args\<lparr>arg_param_routing := True\<rparr>)
   \<and> BiLevelRoutingAttention_init zero_init (scenario_args\<lparr>arg_param_routing := True\<rparr>)
       = Inl AssertionError"
  using init_param_routing_needs_diff_routing
          [of "scenario_args\<lparr>arg_param_routing := True\<rparr>" zero_init]
  by (simp add: init_defs)

text \<open>
  The router's own constructor, \<^verbatim>\<open>TopkRouting.__init__\<close>, has no such check: with
  \<^verbatim>\<open>param_routing=True\<close> and \<^verbatim>\<open>diff_routing=False\<close> it returns a router.
\<close>

theorem router_init_accepts_param_without_diff:
  "TopkRouting_init zero_init 32 4 None True False =
     Inr \<lparr>r_topk = 4, r_qk_dim = 32, r_scale = 1 / sqrt 32, r_diff_routing = False,
          r_emb = Some (Linear_init zero_init 32 32)\<rparr>"
  by (simp add: TopkRouting_init_def scale_or_def)

text \<open>
  Claim C7. A \<^verbatim>\<open>kv_downsample_mode\<close> outside the recognised set is meant to raise
  \<^verbatim>\<open>ValueError\<close>; the message of line 199 reads the misspelt attribute
  \<^verbatim>\<open>self.kv_downsaple_mode\<close>, so the constructor raises \<^verbatim>\<open>AttributeError\<close> instead.
\<close>

theorem init_unknown_kv_downsample_mode:
  "BiLevelRoutingAttention_init init
     ((default_args 4 32)\<lparr>arg_kv_downsample_mode := ''bogus''\<rparr>) = Inl AttributeError"
  by (simp add: init_defs)

text \<open>
  The other half of that claim holds: when lines 131 to 157 pass, a \<^verbatim>\<open>param_attention\<close>
  other than \<^verbatim>\<open>'qkvo'\<close> and \<^verbatim>\<open>'qkv'\<close> raises \<^verbatim>\<open>ValueError\<close>.
\<close>

lemma init_unknown_param_attention:
  assumes "arg_param_attention a \<noteq> ''qkvo''" and "arg_param_attention a \<noteq> ''qkv''"
  shows "BiLevelRoutingAttention_init init a \<in>
           {Inl ValueError, Inl AssertionError, Inl ZeroDivisionError}"
  using assms
  by (auto simp: BiLevelRoutingAttention_init_def Let_def scale_or_def TopkRouting_init_def
      KVGather_init_def select_mul_weight_def select_projection_def split: option.splits)

lemma init_invalid_param_attention_example:
  "BiLevelRoutingAttention_init init
     ((default_args 4 32)\<lparr>arg_param_attention := ''invalid''\<rparr>) = Inl ValueError"
  by (simp add: init_defs)

lemma init_conv_example:
  "BiLevelRoutingAttention_init init
     ((default_args 4 32)\<lparr>arg_kv_downsample_mode := ''conv''\<rparr>) = Inl NotImplementedError"
  by (simp add: init_defs)

subsection \<open>Shapes and errors of the forward pass\<close>

text \<open>
  Claim C1. With \<^verbatim>\<open>auto_pad=True\<close> the output should have the shape of the input. The code
  hands the three paddings to \<^verbatim>\<open>F.pad\<close> in the wrong order (the padding computed from the
  depth goes to the width, and so on) and crops with the slice of the two-dimensional version.
  In the scenario of the specification, input \<open>(1, 15, 16, 16, 32)\<close> with \<open>n_win = 2\<close>,
  the width is padded to 17, the depth stays 15, and line 252 fails; for the input
  \<open>(1, 15, 15, 15, 32)\<close> the padding is right, the crop leaves the width at 16.
\<close>

theorem forward_auto_pad_scenario:
  "BiLevelRoutingAttention_init init (scenario_args\<lparr>arg_auto_pad := True\<rparr>)
     = Inr (scenario_module init False True)
   \<and> forward_shape pool (scenario_module init False True) [1, 15, 16, 16, 32] False
     = Inl EinopsError
   \<and> forward_shape pool (scenario_module init False True) [1, 15, 15, 15, 32] False
     = Inr [(''out'', [1, 15, 15, 16, 32]), (''q'', [1, 8, 8, 8, 8, 32]),
            (''k'', [1, 8, 8, 8, 8, 32]), (''v'', [1, 8, 8, 8, 8, 32])]"
proof (intro conjI)
  show "BiLevelRoutingAttention_init init (scenario_args\<lparr>arg_auto_pad := True\<rparr>)
     = Inr (scenario_module init False True)"
    by (simp add: init_defs scenario_module_def)
  show "forward_shape pool (scenario_module init False True) [1, 15, 16, 16, 32] False
     = Inl EinopsError"
    by (simp add: scenario_module_def shape_defs)
  show "forward_shape pool (scenario_module init False True) [1, 15, 15, 15, 32] False
     = Inr [(''out'', [1, 15, 15, 16, 32]), (''q'', [1, 8, 8, 8, 8, 32]),
            (''k'', [1, 8, 8, 8, 8, 32]), (''v'', [1, 8, 8, 8, 8, 32])]"
    by (simp add: scenario_module_def shape_defs)
qed

text \<open>Without padding the scenario keeps its shape.\<close>

lemma forward_scenario_plain:
  "forward_shape pool (scenario_module init False False) [1, 16, 16, 16, 32] False =
     Inr [(''out'', [1, 16, 16, 16, 32]), (''q'', [1, 8, 8, 8, 8, 32]),
          (''k'', [1, 8, 8, 8, 8, 32]), (''v'', [1, 8, 8, 8, 8, 32])]"
  by (simp add: scenario_module_def shape_defs)

lemma forward_scenario_aux:
  "forward_shape pool (scenario_module init False False) [1, 16, 16, 16, 32] True =
     Inr [(''out'', [1, 16, 16, 16, 32]), (''r_weight'', [1, 8, 4]), (''r_idx'', [1, 8, 4]),
          (''attn_weight'', [8, 4, 512, 2048]), (''q'', [1, 8, 8, 8, 8, 32]),
          (''k'', [1, 8, 8, 8, 8, 32]), (''v'', [1, 8, 8, 8, 8, 32])]"
  by (simp add: scenario_module_def shape_defs)

text \<open>
  What the constructor leaves in the fields of the module, and the shapes of the forward
  pass step by step whenever it returns.
\<close>

lemma init_Inr:
  assumes "BiLevelRoutingAttention_init init a = Inr m"
  obtains qk sc rt g pq po kd where
    "arg_num_heads a \<noteq> 0" "qk mod arg_num_heads a = 0" "arg_dim a mod arg_num_heads a = 0"
    "TopkRouting_init init qk (arg_topk a) (Some sc) (arg_param_routing a) (arg_diff_routing a) = Inr rt"
    "KVGather_init (select_mul_weight (arg_soft_routing a) (arg_diff_routing a)) = Inr g"
    "select_projection init (arg_param_attention a) (arg_dim a) qk = Inr (pq, po)"
    "dim' m = arg_dim a" "qk_dim m = qk" "num_heads m = arg_num_heads a" "topk m = arg_topk a"
    "router m = rt" "kv_gather m = g" "qkv m = pq" "wo m = po"
proof -
  define qk where "qk = (case arg_qk_dim a of None \<Rightarrow> arg_dim a | Some q \<Rightarrow> if q = 0 then arg_dim a else q)"
  have e: "BiLevelRoutingAttention_init init a =
     (if arg_num_heads a = 0 then Inl ZeroDivisionError
      else if \<not> (qk mod arg_num_heads a = 0 \<and> arg_dim a mod arg_num_heads a = 0)
        then Inl AssertionError
      else
        bind_err (scale_or (arg_qk_scale a) qk) (\<lambda>sc.
        if \<not> \<not> (arg_param_routing a \<and> \<not> arg_diff_routing a) then Inl AssertionError
        else
          bind_err (TopkRouting_init init qk (arg_topk a) (Some sc)
                      (arg_param_routing a) (arg_diff_routing a)) (\<lambda>rt.
          bind_err (KVGather_init
                      (select_mul_weight (arg_soft_routing a) (arg_diff_routing a))) (\<lambda>g.
          bind_err (select_projection init (arg_param_attention a) (arg_dim a) qk) (\<lambda>(pq, po).
          bind_err (select_kv_down (arg_kv_downsample_mode a) (arg_kv_per_win a)
                      (arg_kv_downsample_ratio a)) (\<lambda>kd.
          Inr \<lparr>dim' = arg_dim a, n_win = arg_n_win a, num_heads = arg_num_heads a, qk_dim = qk,
               scale' = sc, topk = arg_topk a, param_routing = arg_param_routing a,
               diff_routing = arg_diff_routing a, soft_routing = arg_soft_routing a,
               router = rt, kv_gather = g, param_attention = arg_param_attention a,
               qkv = pq, wo = po, kv_downsample_mode = arg_kv_downsample_mode a,
               kv_per_win = arg_kv_per_win a,
               kv_downsample_ratio = arg_kv_downsample_ratio a,
               kv_downsample_kenel = arg_kv_downsample_kernel a,
               kv_down = kd, auto_pad = arg_auto_pad a\<rparr>))))))"
    unfolding BiLevelRoutingAttention_init_def Let_def qk_def ..
  have nz: "arg_num_heads a \<noteq> 0"
    using assms unfolding e by (cases "arg_num_heads a = 0") simp_all
  have dv: "qk mod arg_num_heads a = 0 \<and> arg_dim a mod arg_num_heads a = 0"
    using assms nz unfolding e
    by (cases "qk mod arg_num_heads a = 0 \<and> arg_dim a mod arg_num_heads a = 0") simp_all
  from assms nz dv obtain sc where
    r: "(if \<not> \<not> (arg_param_routing a \<and> \<not> arg_diff_routing a) then Inl AssertionError
        else
          bind_err (TopkRouting_init init qk (arg_topk a) (Some sc)
                      (arg_param_routing a) (arg_diff_routing a)) (\<lambda>rt.
          bind_err (KVGather_init
                      (select_mul_weight (arg_soft_routing a) (arg_diff_routing a))) (\<lambda>g.
          bind_err (select_projection init (arg_param_attention a) (arg_dim a) qk) (\<lambda>(pq, po).
          bind_err (select_kv_down (arg_kv_downsample_mode a) (arg_kv_per_win a)
                      (arg_kv_downsample_ratio a)) (\<lambda>kd.
          Inr \<lparr>dim' = arg_dim a, n_win = arg_n_win a, num_heads = arg_num_heads a, qk_dim = qk,
               scale' = sc, topk = arg_topk a, param_routing = arg_param_routing a,
               diff_routing = arg_diff_routing a, soft_routing = arg_soft_routing a,
               router = rt, kv_gather = g, param_attention = arg_param_attention a,
               qkv = pq, wo = po, kv_downsample_mode = arg_kv_downsample_mode a,
               kv_per_win = arg_kv_per_win a,
               kv_downsample_ratio = arg_kv_downsample_ratio a,
               kv_downsample_kenel = arg_kv_downsample_kernel a,
               kv_down = kd, auto_pad = arg_auto_pad a\<rparr>))))) = Inr m"
    unfolding e by (simp add: bind_err_Inr_iff) blast
  then obtain rt g pq po kd where
    1: "TopkRouting_init init qk (arg_topk a) (Some sc) (arg_param_routing a) (arg_diff_routing a) = Inr rt"
    and 2: "KVGather_init (select_mul_weight (arg_soft_routing a) (arg_diff_routing a)) = Inr g"
    and 3: "select_projection init (arg_param_attention a) (arg_dim a) qk = Inr (pq, po)"
    and m: "m = \<lparr>dim' = arg_dim a, n_win = arg_n_win a, num_heads = arg_num_heads a, qk_dim = qk,
               scale' = sc, topk = arg_topk a, param_routing = arg_param_routing a,
               diff_routing = arg_diff_routing a, soft_routing = arg_soft_routing a,
               router = rt, kv_gather = g, param_attention = arg_param_attention a,
               qkv = pq, wo = po, kv_downsample_mode = arg_kv_downsample_mode a,
               kv_per_win = arg_kv_per_win a,
               kv_downsample_ratio = arg_kv_downsample_ratio a,
               kv_downsample_kenel = arg_kv_downsample_kernel a,
               kv_down = kd, auto_pad = arg_auto_pad a\<rparr>"
    by (auto simp: bind_err_Inr_iff split: if_splits)
  show thesis
    by (rule that[OF nz conjunct1[OF dv] conjunct2[OF dv] 1 2 3]) (simp_all add: m)
qed

lemma init_fields:
  assumes "BiLevelRoutingAttention_init init a = Inr m"
  shows "qkv m = QKVLinear_init init (dim' m) (qk_dim m)"
    and "wo m = None \<or> wo m = Some (Linear_init init (dim' m) (dim' m))"
    and "r_topk (router m) = topk m"
    and "r_emb (router m) = None \<or> r_emb (router m) = Some (Linear_init init (qk_dim m) (qk_dim m))"
    and "0 < num_heads m" and "num_heads m dvd qk_dim m" and "num_heads m dvd dim' m"
proof -
  obtain qk sc rt g pq po kd where
    h: "arg_num_heads a \<noteq> 0" "qk mod arg_num_heads a = 0" "arg_dim a mod arg_num_heads a = 0"
    and 1: "TopkRouting_init init qk (arg_topk a) (Some sc) (arg_param_routing a) (arg_diff_routing a) = Inr rt"
    and 3: "select_projection init (arg_param_attention a) (arg_dim a) qk = Inr (pq, po)"
    and f: "dim' m = arg_dim a" "qk_dim m = qk" "num_heads m = arg_num_heads a" "topk m = arg_topk a"
    "router m = rt" "qkv m = pq" "wo m = po"
    by (rule init_Inr[OF assms])
  from 3 show "qkv m = QKVLinear_init init (dim' m) (qk_dim m)"
    and "wo m = None \<or> wo m = Some (Linear_init init (dim' m) (dim' m))"
    by (auto simp: f select_projection_def split: if_splits)
  from 1 show "r_topk (router m) = topk m"
    and "r_emb (router m) = None \<or> r_emb (router m) = Some (Linear_init init (qk_dim m) (qk_dim m))"
    by (auto simp: f TopkRouting_init_def bind_err_Inr_iff)
  from h show "0 < num_heads m" and "num_heads m dvd qk_dim m" and "num_heads m dvd dim' m"
    by (auto simp: f)
qed

lemma partition_shape_Inr:
  assumes "rearrange_partition_shape nw [N, D, H, W, C] = Inr s"
  shows "nw \<noteq> 0" "D mod nw = 0" "H mod nw = 0" "W mod nw = 0"
    "s = [N, nw * nw * nw, D div nw, H div nw, W div nw, C]"
  using assms by (auto split: if_splits)

lemma QKVLinear_shape_Inr:
  assumes "QKVLinear_forward_shape (QKVLinear_init init d qk) [N, p, a, b, c, C] = Inr (q, kv, k, v)"
  shows "C = d" "q = [N, p, a, b, c, qk]" "kv = [N, p, a, b, c, qk + d]"
    "k = [N, p, a, b, c, qk]" "v = [N, p, a, b, c, d]"
  using assms
  by (auto simp: QKVLinear_forward_shape_def QKVLinear_init_def Linear_init_def Linear_shape_def
      bind_err_Inr_iff split: if_splits)

lemma kv_down_shape_Inr:
  assumes "pool_keeps_layout pool" and "kv_down_shape pool kd [b, c, d, h, w] = Inr s"
  shows "\<exists>d' h' w'. s = [b, c, d', h', w'] \<and> (kd = Identity \<longrightarrow> d' = d \<and> h' = h \<and> w' = w)"
  using assms by (cases kd) (auto simp: kv_down_shape_def pool_keeps_layout_def)

lemma router_shape_Inr:
  assumes "r_emb rt = None \<or> r_emb rt = Some (Linear_init init qk qk)"
    and "TopkRouting_forward_shape rt [N, p, qk] [N, p, qk] = Inr (rw, ri)"
  shows "rw = [N, p, r_topk rt]" "ri = [N, p, r_topk rt]"
  using assms
  by (auto simp: TopkRouting_forward_shape_def emb_shape_def Linear_shape_def Linear_init_def
      transpose_last2_shape_def matmul_shape_def broadcast_shapes_def torch_topk_shape_def
      bind_err_Inr_iff split: if_splits option.splits)


lemma forward_route_shape_Inr:
  assumes q: "qkv m = QKVLinear_init init (dim' m) (qk_dim m)"
    and e: "r_emb (router m) = None \<or> r_emb (router m) = Some (Linear_init init (qk_dim m) (qk_dim m))"
    and p: "pool_keeps_layout pool"
    and r: "forward_route_shape pool m [N, D, H, W, C] = Inr (q, k, v, q_pix, kv_pix, r_weight, r_idx)"
  obtains w2 where "n_win m \<noteq> 0" "D mod n_win m = 0" "H mod n_win m = 0" "W mod n_win m = 0"
    "C = dim' m"
    "q = [N, n_win m * n_win m * n_win m, D div n_win m, H div n_win m, W div n_win m, qk_dim m]"
    "k = [N, n_win m * n_win m * n_win m, D div n_win m, H div n_win m, W div n_win m, qk_dim m]"
    "v = [N, n_win m * n_win m * n_win m, D div n_win m, H div n_win m, W div n_win m, dim' m]"
    "q_pix = [N, n_win m * n_win m * n_win m,
              (D div n_win m) * (H div n_win m) * (W div n_win m), qk_dim m]"
    "kv_pix = [N, n_win m * n_win m * n_win m, w2, qk_dim m + dim' m]"
    "kv_down m = Identity \<longrightarrow> w2 = (D div n_win m) * (H div n_win m) * (W div n_win m)"
    "r_weight = [N, n_win m * n_win m * n_win m, r_topk (router m)]"
    "r_idx = [N, n_win m * n_win m * n_win m, r_topk (router m)]"
proof -
  let ?nw = "n_win m" and ?p3 = "n_win m * n_win m * n_win m"
  let ?d = "D div n_win m" and ?h = "H div n_win m" and ?w = "W div n_win m"
  from r obtain x1 kv kv_cf kv_ds q_win k_s k_win where
    1: "rearrange_partition_shape ?nw [N, D, H, W, C] = Inr x1"
    and 2: "QKVLinear_forward_shape (qkv m) x1 = Inr (q, kv, k, v)"
    and 3: "rearrange_flatten_pixels_shape q = Inr q_pix"
    and 4: "rearrange_channel_first_shape kv = Inr kv_cf"
    and 5: "kv_down_shape pool (kv_down m) kv_cf = Inr kv_ds"
    and 6: "rearrange_kv_pixels_shape ?nw kv_ds = Inr kv_pix"
    and 7: "mean_234_shape q = Inr q_win"
    and 8: "slice_last_shape (qk_dim m) kv = Inr k_s" "mean_234_shape k_s = Inr k_win"
    and 9: "TopkRouting_forward_shape (router m) q_win k_win = Inr (r_weight, r_idx)"
    by (auto simp: forward_route_shape_def bind_err_Inr_iff)
  note a = partition_shape_Inr[OF 1]
  note b = QKVLinear_shape_Inr[OF 2[unfolded q a(5)]]
  from a(1) have p3: "0 < ?p3" by simp
  from 3 have qp: "q_pix = [N, ?p3, ?d * ?h * ?w, qk_dim m]" by (simp add: b)
  from 4 have cf: "kv_cf = [N * ?p3, qk_dim m + dim' m, ?d, ?h, ?w]" by (simp add: b)
  from kv_down_shape_Inr[OF p 5[unfolded cf]] obtain d' h' w' where
    ds: "kv_ds = [N * ?p3, qk_dim m + dim' m, d', h', w']"
    and id: "kv_down m = Identity \<longrightarrow> d' = ?d \<and> h' = ?h \<and> w' = ?w" by blast
  from 6 p3 have kp: "kv_pix = [N, ?p3, d' * h' * w', qk_dim m + dim' m]"
    by (simp add: ds)
  from 7 have qw: "q_win = [N, ?p3, qk_dim m]" by (simp add: b)
  from 8 have kw: "k_win = [N, ?p3, qk_dim m]" by (auto simp: b slice_last_shape_def)
  note c = router_shape_Inr[OF e 9[unfolded qw kw]]
  show thesis
    by (rule that[OF a(1-4) b(1) b(2) b(4) b(5) qp kp _ c]) (use id in simp)
qed


lemma KVGather_shape_Inr:
  assumes "KVGather_forward_shape g [N, p, tk] rw [N, p, w2, c] = Inr kvs"
  shows "kvs = [N, p, tk, w2, c]"
  using assms by (auto simp: view_shape_def bind_err_Inr_iff split: if_splits)

lemma matmul_shape_4d: "matmul_shape [b, m, x, c] [b, m, c, y] = Inr [b, m, x, y]"
  by (simp add: matmul_shape_def broadcast_shapes_def)

lemma forward_attend_shape_Inr:
  assumes hd: "0 < num_heads m" "num_heads m dvd qk_dim m" "num_heads m dvd dim' m"
    and wo: "wo m = None \<or> wo m = Some (Linear_init init (dim' m) (dim' m))"
    and nw: "n_win m \<noteq> 0" "D mod n_win m = 0" "H mod n_win m = 0" "W mod n_win m = 0"
    and r: "forward_attend_shape m D H W
              [N, n_win m * n_win m * n_win m,
               (D div n_win m) * (H div n_win m) * (W div n_win m), qk_dim m]
              [N, n_win m * n_win m * n_win m, tk, w2, qk_dim m + dim' m] = Inr (out, aw)"
  shows "aw = [N * (n_win m * n_win m * n_win m), num_heads m,
               (D div n_win m) * (H div n_win m) * (W div n_win m), tk * w2]"
    and "out = [N, D, H, W, dim' m]"
proof -
  let ?nw = "n_win m" and ?p3 = "n_win m * n_win m * n_win m" and ?m = "num_heads m"
  let ?w3 = "(D div n_win m) * (H div n_win m) * (W div n_win m)"
  from r obtain ks vs k_sel v_sel q_h out1 out2 where
    1: "split2_shape (qk_dim m) (dim' m) [N, ?p3, tk, w2, qk_dim m + dim' m] = Inr (ks, vs)"
    and 2: "rearrange_heads_k_shape ?m ks = Inr k_sel"
    and 3: "rearrange_heads_v_shape ?m vs = Inr v_sel"
    and 4: "rearrange_heads_q_shape ?m [N, ?p3, ?w3, qk_dim m] = Inr q_h"
    and 5: "matmul_shape q_h k_sel = Inr aw"
    and 6: "matmul_shape aw v_sel = Inr out1"
    and 7: "rearrange_reassemble_shape ?nw (D div ?nw) (H div ?nw) (W div ?nw) out1 = Inr out2"
    and 8: "emb_shape (wo m) out2 = Inr out"
    by (auto simp: forward_attend_shape_def bind_err_Inr_iff)
  from 1 have s: "ks = [N, ?p3, tk, w2, qk_dim m]" "vs = [N, ?p3, tk, w2, dim' m]"
    by (auto simp: split2_shape_def)
  from hd have md: "qk_dim m mod ?m = 0" "dim' m mod ?m = 0" by auto
  from 2 hd(1) md have ksel: "k_sel = [N * ?p3, ?m, qk_dim m div ?m, tk * w2]" by (simp add: s)
  from 3 hd(1) md have vsel: "v_sel = [N * ?p3, ?m, tk * w2, dim' m div ?m]" by (simp add: s)
  from 4 hd(1) md have qh: "q_h = [N * ?p3, ?m, ?w3, qk_dim m div ?m]" by simp
  from 5 show aw: "aw = [N * ?p3, ?m, ?w3, tk * w2]"
    unfolding qh ksel matmul_shape_4d by simp
  from 6 have o1: "out1 = [N * ?p3, ?m, ?w3, dim' m div ?m]"
    unfolding aw vsel matmul_shape_4d by simp
  from nw(1) have p3: "0 < ?p3" by simp
  have dv: "?nw * (D div ?nw) = D" "?nw * (H div ?nw) = H" "?nw * (W div ?nw) = W"
    using nw(2-4) by auto
  have mv: "?m * (dim' m div ?m) = dim' m" using hd(3) by simp
  from 7 p3 have o2: "out2 = [N, D, H, W, dim' m]"
    by (simp add: o1 dv mv)
  from 8 wo show "out = [N, D, H, W, dim' m]"
    by (auto simp: o2 emb_shape_def Linear_shape_def Linear_init_def)
qed

lemma forward_body_shape_Inr:
  assumes init: "BiLevelRoutingAttention_init init a = Inr m"
    and p: "pool_keeps_layout pool"
    and r: "forward_body_shape pool m [N, D, H, W, C]
              = Inr (out, r_weight, r_idx, attn_weight, q, k, v)"
  obtains w2 where "n_win m \<noteq> 0" "D mod n_win m = 0" "H mod n_win m = 0" "W mod n_win m = 0"
    "C = dim' m"
    "q = [N, n_win m * n_win m * n_win m, D div n_win m, H div n_win m, W div n_win m, qk_dim m]"
    "k = [N, n_win m * n_win m * n_win m, D div n_win m, H div n_win m, W div n_win m, qk_dim m]"
    "v = [N, n_win m * n_win m * n_win m, D div n_win m, H div n_win m, W div n_win m, dim' m]"
    "r_weight = [N, n_win m * n_win m * n_win m, topk m]"
    "r_idx = [N, n_win m * n_win m * n_win m, topk m]"
    "attn_weight = [N * (n_win m * n_win m * n_win m), num_heads m,
                    (D div n_win m) * (H div n_win m) * (W div n_win m), topk m * w2]"
    "kv_down m = Identity \<longrightarrow> w2 = (D div n_win m) * (H div n_win m) * (W div n_win m)"
    "out = [N, D, H, W, dim' m]"
proof -
  note f = init_fields[OF init]
  from r obtain q_pix kv_pix kvs where
    1: "forward_route_shape pool m [N, D, H, W, C]
          = Inr (q, k, v, q_pix, kv_pix, r_weight, r_idx)"
    and 2: "KVGather_forward_shape (kv_gather m) r_idx r_weight kv_pix = Inr kvs"
    and 3: "forward_attend_shape m D H W q_pix kvs = Inr (out, attn_weight)"
    by (auto simp: forward_body_shape_def bind_err_Inr_iff)
  obtain w2 where
    a: "n_win m \<noteq> 0" "D mod n_win m = 0" "H mod n_win m = 0" "W mod n_win m = 0"
    and c: "C = dim' m"
    and q: "q = [N, n_win m * n_win m * n_win m, D div n_win m, H div n_win m, W div n_win m, qk_dim m]"
    and k: "k = [N, n_win m * n_win m * n_win m, D div n_win m, H div n_win m, W div n_win m, qk_dim m]"
    and v: "v = [N, n_win m * n_win m * n_win m, D div n_win m, H div n_win m, W div n_win m, dim' m]"
    and qp: "q_pix = [N, n_win m * n_win m * n_win m,
              (D div n_win m) * (H div n_win m) * (W div n_win m), qk_dim m]"
    and kp: "kv_pix = [N, n_win m * n_win m * n_win m, w2, qk_dim m + dim' m]"
    and id: "kv_down m = Identity \<longrightarrow> w2 = (D div n_win m) * (H div n_win m) * (W div n_win m)"
    and rw: "r_weight = [N, n_win m * n_win m * n_win m, r_topk (router m)]"
    and ri: "r_idx = [N, n_win m * n_win m * n_win m, r_topk (router m)]"
    by (rule forward_route_shape_Inr[OF f(1) f(4) p 1]) (rule that)
  note g = KVGather_shape_Inr[OF 2[unfolded ri kp]]
  note h = forward_attend_shape_Inr[OF f(5-7) f(2) a 3[unfolded qp g]]
  show thesis
    by (rule that[OF a c q k v rw[unfolded f(3)] ri[unfolded f(3)] h(1)[unfolded f(3)] id h(2)])
qed


lemma F_pad_shape_5:
  "F_pad_shape [N, D, H, W, C] [(0, 0), (0, a), (0, b), (0, c)] = Inr [N, D + c, H + b, W + a, C]"
  by (simp add: F_pad_shape_def)

lemma crop_shape_5: "crop_shape Hi Wi [N, D, H, W, C] = Inr [N, min D Hi, min H Wi, W, C]"
  by simp

lemma forward_shape_Inr_rank:
  assumes "forward_shape pool m x flag = Inr rets"
  shows "\<exists>N D_in H_in W_in C. x = [N, D_in, H_in, W_in, C]"
  using assms by (cases "(pool, m, x, flag)" rule: forward_shape.cases) simp_all

lemma narrow_init: "BiLevelRoutingAttention_init zero_init narrow_args = Inr narrow_module"
  by (simp add: init_defs narrow_args_def narrow_module_def)

lemma unused_pool_keeps_layout: "pool_keeps_layout unused_pool"
  by (simp add: pool_keeps_layout_def unused_pool_def)

lemma forward_narrow_aux:
  "forward_shape unused_pool narrow_module [1, 16, 16, 16, 32] True =
     Inr [(''out'', [1, 16, 16, 16, 32]), (''r_weight'', [1, 8, 4]), (''r_idx'', [1, 8, 4]),
          (''attn_weight'', [8, 4, 512, 2048]), (''q'', [1, 8, 8, 8, 8, 16]),
          (''k'', [1, 8, 8, 8, 8, 16]), (''v'', [1, 8, 8, 8, 8, 32])]"
  by (simp add: narrow_module_def shape_defs)

text \<open>
  Claim C2 (amended). \<^verbatim>\<open>forward\<close> returns the 4-tuple \<^verbatim>\<open>(out, q, k, v)\<close> if
  \<^verbatim>\<open>ret_attn_mask\<close> is false and the 7-tuple
  \<^verbatim>\<open>(out, r_weight, r_idx, attn_weight, q, k, v)\<close> if it is true. Whenever a constructed
  module returns, the input is \<open>(N, D_in, H_in, W_in, dim)\<close> and, with \<open>D\<close>,
  \<open>H\<close>, \<open>W\<close> the extents after the padding of line 236 and \<open>d\<close>, \<open>h\<close>,
  \<open>w\<close> their quotients by \<open>n_win\<close>: \<^verbatim>\<open>q\<close> and \<^verbatim>\<open>k\<close> are the projections
  of the partitioned input, of shape \<open>(N, n_win\<^sup>3, d, h, w, qk_dim)\<close>, \<^verbatim>\<open>v\<close> is of
  shape \<open>(N, n_win\<^sup>3, d, h, w, dim)\<close>, \<^verbatim>\<open>r_weight\<close> and \<^verbatim>\<open>r_idx\<close> of shape
  \<open>(N, n_win\<^sup>3, topk)\<close>, \<^verbatim>\<open>attn_weight\<close> of shape
  \<open>(N \<sqdot> n_win\<^sup>3, num_heads, d \<sqdot> h \<sqdot> w, topk \<sqdot> w2)\<close> for the number \<open>w2\<close> of
  pooled pixels of a window (\<open>d \<sqdot> h \<sqdot> w\<close> without pooling), and \<^verbatim>\<open>out\<close> of shape
  \<open>(N, D, H, W, dim)\<close>, after the crop of line 328
  \<open>(N, min D H_in, min H W_in, W, dim)\<close>.
\<close>

theorem forward_return_tuple:
  assumes "BiLevelRoutingAttention_init init a = Inr m"
    and "pool_keeps_layout pool"
    and "forward_shape pool m x flag = Inr rets"
  shows "\<exists>N D_in H_in W_in w2.
      x = [N, D_in, H_in, W_in, dim' m] \<and>
      (let nw = n_win m; p3 = nw * nw * nw;
           pad_d = (nw - D_in mod nw) mod nw;
           pad_r = (nw - W_in mod nw) mod nw;
           pad_b = (nw - H_in mod nw) mod nw;
           D = (if auto_pad m then D_in + pad_b else D_in);
           H = (if auto_pad m then H_in + pad_r else H_in);
           W = (if auto_pad m then W_in + pad_d else W_in);
           d = D div nw; h = H div nw; w = W div nw;
           out = (if auto_pad m \<and> (0 < pad_r \<or> 0 < pad_b)
                  then [N, min D H_in, min H W_in, W, dim' m] else [N, D, H, W, dim' m]);
           q = [N, p3, d, h, w, qk_dim m];
           k = [N, p3, d, h, w, qk_dim m];
           v = [N, p3, d, h, w, dim' m];
           r_weight = [N, p3, topk m];
           r_idx = [N, p3, topk m];
           attn_weight = [N * p3, num_heads m, d * h * w, topk m * w2]
       in (kv_down m = Identity \<longrightarrow> w2 = d * h * w) \<and>
          rets =
            (if flag then
               [(''out'', out), (''r_weight'', r_weight), (''r_idx'', r_idx),
                (''attn_weight'', attn_weight), (''q'', q), (''k'', k), (''v'', v)]
             else [(''out'', out), (''q'', q), (''k'', k), (''v'', v)]))"
proof -
  from forward_shape_Inr_rank[OF assms(3)] obtain N D_in H_in W_in C
    where x: "x = [N, D_in, H_in, W_in, C]" by blast
  let ?nw = "n_win m"
  let ?pd = "(?nw - D_in mod ?nw) mod ?nw"
  let ?pr = "(?nw - W_in mod ?nw) mod ?nw"
  let ?pb = "(?nw - H_in mod ?nw) mod ?nw"
  let ?D = "if auto_pad m then D_in + ?pb else D_in"
  let ?H = "if auto_pad m then H_in + ?pr else H_in"
  let ?W = "if auto_pad m then W_in + ?pd else W_in"
  let ?crop = "auto_pad m \<and> (0 < ?pr \<or> 0 < ?pb)"
  from assms(3) x have nz: "?nw \<noteq> 0" by (auto split: if_splits)
  from assms(3) x nz have "\<exists>xp. (if auto_pad m then
            F_pad_shape [N, D_in, H_in, W_in, C] [(0, 0), (0, ?pd), (0, ?pr), (0, ?pb)]
          else if D_in mod ?nw = 0 \<and> H_in mod ?nw = 0 \<and> W_in mod ?nw = 0
            then Inr [N, D_in, H_in, W_in, C]
          else Inl AssertionError) = Inr xp
      \<and> (\<exists>out r_weight r_idx attn_weight q k v.
           forward_body_shape pool m xp = Inr (out, r_weight, r_idx, attn_weight, q, k, v)
         \<and> (\<exists>out'. (if ?crop then crop_shape H_in W_in out else Inr out) = Inr out'
            \<and> (if flag then
               Inr [(''out'', out'), (''r_weight'', r_weight), (''r_idx'', r_idx),
                (''attn_weight'', attn_weight), (''q'', q), (''k'', k), (''v'', v)]
             else Inr [(''out'', out'), (''q'', q), (''k'', k), (''v'', v)])
               = (Inr rets :: error + (string \<times> nat list) list)))"
    by (simp add: bind_err_Inr_iff Let_def cong: if_cong split: prod.splits split del: if_split)
  then obtain xp out r_weight r_idx attn_weight q k v out' where
    xp: "(if auto_pad m then
            F_pad_shape [N, D_in, H_in, W_in, C] [(0, 0), (0, ?pd), (0, ?pr), (0, ?pb)]
          else if D_in mod ?nw = 0 \<and> H_in mod ?nw = 0 \<and> W_in mod ?nw = 0
            then Inr [N, D_in, H_in, W_in, C]
          else Inl AssertionError) = Inr xp"
    and b: "forward_body_shape pool m xp = Inr (out, r_weight, r_idx, attn_weight, q, k, v)"
    and c: "(if ?crop then crop_shape H_in W_in out else Inr out) = Inr out'"
    and r0: "(if flag then
               Inr [(''out'', out'), (''r_weight'', r_weight), (''r_idx'', r_idx),
                (''attn_weight'', attn_weight), (''q'', q), (''k'', k), (''v'', v)]
             else Inr [(''out'', out'), (''q'', q), (''k'', k), (''v'', v)])
               = (Inr rets :: error + (string \<times> nat list) list)"
    by (elim exE conjE) (rule that)
  from r0 have r: "rets =
            (if flag then
               [(''out'', out'), (''r_weight'', r_weight), (''r_idx'', r_idx),
                (''attn_weight'', attn_weight), (''q'', q), (''k'', k), (''v'', v)]
             else [(''out'', out'), (''q'', q), (''k'', k), (''v'', v)])"
    by (cases flag) auto
  from xp have xp': "xp = [N, ?D, ?H, ?W, C]"
    by (simp add: F_pad_shape_5 split: if_splits)
  obtain w2 where
    C: "C = dim' m"
    and q: "q = [N, ?nw * ?nw * ?nw, ?D div ?nw, ?H div ?nw, ?W div ?nw, qk_dim m]"
    and k: "k = [N, ?nw * ?nw * ?nw, ?D div ?nw, ?H div ?nw, ?W div ?nw, qk_dim m]"
    and v: "v = [N, ?nw * ?nw * ?nw, ?D div ?nw, ?H div ?nw, ?W div ?nw, dim' m]"
    and rw: "r_weight = [N, ?nw * ?nw * ?nw, topk m]"
    and ri: "r_idx = [N, ?nw * ?nw * ?nw, topk m]"
    and aw: "attn_weight = [N * (?nw * ?nw * ?nw), num_heads m,
                    (?D div ?nw) * (?H div ?nw) * (?W div ?nw), topk m * w2]"
    and id: "kv_down m = Identity \<longrightarrow> w2 = (?D div ?nw) * (?H div ?nw) * (?W div ?nw)"
    and out: "out = [N, ?D, ?H, ?W, dim' m]"
    by (rule forward_body_shape_Inr[OF assms(1,2) b[unfolded xp']]) (rule that)
  have out': "out' = (if ?crop then [N, min ?D H_in, min ?H W_in, ?W, dim' m]
                            else [N, ?D, ?H, ?W, dim' m])"
  proof (cases ?crop)
    case True
    from c[unfolded if_P[OF True] out crop_shape_5]
    have "out' = [N, min ?D H_in, min ?H W_in, ?W, dim' m]" by (simp only: sum.inject)
    then show ?thesis by (simp only: if_P[OF True])
  next
    case False
    from c[unfolded if_not_P[OF False] out]
    have "out' = [N, ?D, ?H, ?W, dim' m]" by (simp only: sum.inject)
    then show ?thesis by (simp only: if_not_P[OF False])
  qed
  show ?thesis
    apply (rule exI[of _ N], rule exI[of _ D_in], rule exI[of _ H_in],
           rule exI[of _ W_in], rule exI[of _ w2])
    unfolding Let_def
    apply (intro conjI)
      apply (simp add: x C)
     apply (rule id)
    apply (simp only: r q k v rw ri aw out')
    done
qed

theorem forward_return_tuple_witness:
  "BiLevelRoutingAttention_init zero_init narrow_args = Inr narrow_module
   \<and> pool_keeps_layout unused_pool
   \<and> forward_shape unused_pool narrow_module [1, 16, 16, 16, 32] True =
       Inr [(''out'', [1, 16, 16, 16, 32]), (''r_weight'', [1, 8, 4]), (''r_idx'', [1, 8, 4]),
            (''attn_weight'', [8, 4, 512, 2048]), (''q'', [1, 8, 8, 8, 8, 16]),
            (''k'', [1, 8, 8, 8, 8, 16]), (''v'', [1, 8, 8, 8, 8, 32])]
   \<and> (\<exists>N D_in H_in W_in w2.
      [1, 16, 16, 16, 32] = [N, D_in, H_in, W_in, dim' narrow_module] \<and>
      (let nw = n_win narrow_module; p3 = nw * nw * nw;
           pad_d = (nw - D_in mod nw) mod nw;
           pad_r = (nw - W_in mod nw) mod nw;
           pad_b = (nw - H_in mod nw) mod nw;
           D = (if auto_pad narrow_module then D_in + pad_b else D_in);
           H = (if auto_pad narrow_module then H_in + pad_r else H_in);
           W = (if auto_pad narrow_module then W_in + pad_d else W_in);
           d = D div nw; h = H div nw; w = W div nw;
           out = (if auto_pad narrow_module \<and> (0 < pad_r \<or> 0 < pad_b)
                  then [N, min D H_in, min H W_in, W, dim' narrow_module]
                  else [N, D, H, W, dim' narrow_module]);
           q = [N, p3, d, h, w, qk_dim narrow_module];
           k = [N, p3, d, h, w, qk_dim narrow_module];
           v = [N, p3, d, h, w, dim' narrow_module];
           r_weight = [N, p3, topk narrow_module];
           r_idx = [N, p3, topk narrow_module];
           attn_weight = [N * p3, num_heads narrow_module, d * h * w, topk narrow_module * w2]
       in (kv_down narrow_module = Identity \<longrightarrow> w2 = d * h * w) \<and>
          [(''out'', [1, 16, 16, 16, 32]), (''r_weight'', [1, 8, 4]), (''r_idx'', [1, 8, 4]),
           (''attn_weight'', [8, 4, 512, 2048]), (''q'', [1, 8, 8, 8, 8, 16]),
           (''k'', [1, 8, 8, 8, 8, 16]), (''v'', [1, 8, 8, 8, 8, 32])] =
            (if True then
               [(''out'', out), (''r_weight'', r_weight), (''r_idx'', r_idx),
                (''attn_weight'', attn_weight), (''q'', q), (''k'', k), (''v'', v)]
             else [(''out'', out), (''q'', q), (''k'', k), (''v'', v)])))"
  using forward_return_tuple[OF narrow_init unused_pool_keeps_layout forward_narrow_aux]
    narrow_init unused_pool_keeps_layout forward_narrow_aux
  by (intro conjI)

text \<open>
  With \<^verbatim>\<open>ret_attn_mask=False\<close> the scenario returns four tensors, not one: line 333 is
  \<^verbatim>\<open>return out, q, k, v\<close>.
\<close>

theorem forward_returns_four_values:
  "BiLevelRoutingAttention_init zero_init scenario_args
     = Inr (scenario_module zero_init False False)
   \<and> forward_shape unused_pool (scenario_module zero_init False False) [1, 16, 16, 16, 32] False
     = Inr [(''out'', [1, 16, 16, 16, 32]), (''q'', [1, 8, 8, 8, 8, 32]),
            (''k'', [1, 8, 8, 8, 8, 32]), (''v'', [1, 8, 8, 8, 8, 32])]"
proof (intro conjI)
  show "BiLevelRoutingAttention_init zero_init scenario_args
     = Inr (scenario_module zero_init False False)"
    by (simp add: init_defs scenario_module_def)
  show "forward_shape unused_pool (scenario_module zero_init False False)
     [1, 16, 16, 16, 32] False
     = Inr [(''out'', [1, 16, 16, 16, 32]), (''q'', [1, 8, 8, 8, 8, 32]),
            (''k'', [1, 8, 8, 8, 8, 32]), (''v'', [1, 8, 8, 8, 8, 32])]"
    by (rule forward_scenario_plain)
qed

subsection \<open>The unimplemented hard routing\<close>

lemma KVGather_shape_hard:
  assumes "mul_weight g = ''hard''"
  shows "\<exists>e. KVGather_forward_shape g r_idx r_weight kv = Inl e"
  using assms
  by (cases "(g, r_idx, r_weight, kv)" rule: KVGather_forward_shape.cases)
     (auto simp: view_shape_def Let_def)

lemma KVGather_shape_hard_none:
  assumes "mul_weight g = ''hard''"
    and "KVGather_forward_shape \<lparr>mul_weight = ''none''\<rparr> r_idx r_weight kv = Inr s"
  shows "KVGather_forward_shape g r_idx r_weight kv = Inl NotImplementedError"
  using assms
  by (cases "(g, r_idx, r_weight, kv)" rule: KVGather_forward_shape.cases)
     (auto simp: view_shape_def Let_def split: if_splits)

lemma route_kv_gather [simp]:
  "forward_route_shape pool (m\<lparr>kv_gather := g\<rparr>) x = forward_route_shape pool m x"
  by (simp add: forward_route_shape_def)

lemma body_hard_fails:
  assumes "mul_weight (kv_gather m) = ''hard''"
  shows "\<exists>e. forward_body_shape pool m x = Inl e"
proof (cases "forward_route_shape pool m x")
  case (Inl e)
  then show ?thesis by (simp add: forward_body_shape_def)
next
  case (Inr r)
  obtain q k v q_pix kv_pix r_weight r_idx
    where r: "r = (q, k, v, q_pix, kv_pix, r_weight, r_idx)"
    by (cases r) auto
  from KVGather_shape_hard[OF assms] obtain e where
    "KVGather_forward_shape (kv_gather m) r_idx r_weight kv_pix = Inl e" by blast
  with Inr r show ?thesis by (simp add: forward_body_shape_def)
qed

lemma body_hard_not_implemented:
  assumes "mul_weight (kv_gather m) = ''hard''"
    and "forward_body_shape pool (m\<lparr>kv_gather := \<lparr>mul_weight = ''none''\<rparr>\<rparr>) x = Inr r"
  shows "forward_body_shape pool m x = Inl NotImplementedError"
proof -
  from assms(2) obtain q k v q_pix kv_pix r_weight r_idx s where
    rt: "forward_route_shape pool m x = Inr (q, k, v, q_pix, kv_pix, r_weight, r_idx)"
    and g: "KVGather_forward_shape \<lparr>mul_weight = ''none''\<rparr> r_idx r_weight kv_pix = Inr s"
    by (auto simp: forward_body_shape_def bind_err_Inr_iff)
  from KVGather_shape_hard_none[OF assms(1) g] rt show ?thesis
    by (simp add: forward_body_shape_def)
qed

lemma forward_hard_fails:
  assumes "mul_weight (kv_gather m) = ''hard''"
  shows "\<exists>e. forward_shape pool m x flag = Inl e"
proof (cases "forward_shape pool m x flag")
  case (Inl e)
  then show ?thesis by blast
next
  case (Inr rets)
  from forward_shape_Inr_rank[OF Inr] obtain N D_in H_in W_in C
    where x: "x = [N, D_in, H_in, W_in, C]" by blast
  with Inr obtain xp r where "forward_body_shape pool m xp = Inr r"
    by (auto simp: bind_err_Inr_iff Let_def split: if_splits)
  with body_hard_fails[OF assms, of pool xp] have False by auto
  then show ?thesis ..
qed

lemma forward_hard_not_implemented:
  assumes "mul_weight (kv_gather m) = ''hard''"
    and "forward_shape pool (m\<lparr>kv_gather := \<lparr>mul_weight = ''none''\<rparr>\<rparr>) x flag = Inr rets"
  shows "forward_shape pool m x flag = Inl NotImplementedError"
proof -
  from forward_shape_Inr_rank[OF assms(2)] obtain N D_in H_in W_in C
    where x: "x = [N, D_in, H_in, W_in, C]" by blast
  let ?pad = "if auto_pad m then
      F_pad_shape [N, D_in, H_in, W_in, C]
        [(0, 0), (0, (n_win m - D_in mod n_win m) mod n_win m),
         (0, (n_win m - W_in mod n_win m) mod n_win m),
         (0, (n_win m - H_in mod n_win m) mod n_win m)]
    else if D_in mod n_win m = 0 \<and> H_in mod n_win m = 0 \<and> W_in mod n_win m = 0
      then Inr [N, D_in, H_in, W_in, C]
    else Inl AssertionError"
  from assms(2) x have nz: "n_win m \<noteq> 0" by (auto split: if_splits)
  from assms(2) x nz obtain xp r where xp: "?pad = Inr xp"
    and b: "forward_body_shape pool (m\<lparr>kv_gather := \<lparr>mul_weight = ''none''\<rparr>\<rparr>) xp = Inr r"
    by (simp add: bind_err_Inr_iff Let_def cong: if_cong) blast
  from body_hard_not_implemented[OF assms(1) b] xp nz x show ?thesis
    by (simp add: Let_def)
qed

lemma init_selects_hard:
  assumes "BiLevelRoutingAttention_init init a = Inr m"
    and "arg_diff_routing a" and "\<not> arg_soft_routing a"
  shows "mul_weight (kv_gather m) = ''hard''"
  using assms
  by (auto simp: BiLevelRoutingAttention_init_def Let_def bind_err_Inr_iff KVGather_init_def
      select_mul_weight_def split: if_splits)

text \<open>
  Claim C8 (amended). A module constructed with \<^verbatim>\<open>diff_routing=True\<close> and
  \<^verbatim>\<open>soft_routing=False\<close> never returns from \<^verbatim>\<open>forward\<close>: every call raises. The error is
  \<^verbatim>\<open>NotImplementedError\<close> on every input that the same module with
  \<^verbatim>\<open>mul_weight='none'\<close> processes to the end; on other inputs an earlier step may raise
  its own error first.
\<close>

theorem hard_routing_forward_fails:
  assumes "BiLevelRoutingAttention_init init a = Inr m"
    and "arg_diff_routing a" and "\<not> arg_soft_routing a"
  shows "(\<exists>e. forward_shape pool m x flag = Inl e)
       \<and> (\<forall>rets. forward_shape pool (m\<lparr>kv_gather := \<lparr>mul_weight = ''none''\<rparr>\<rparr>) x flag = Inr rets
            \<longrightarrow> forward_shape pool m x flag = Inl NotImplementedError)"
  using forward_hard_fails[OF init_selects_hard[OF assms]]
    forward_hard_not_implemented[OF init_selects_hard[OF assms]]
  by blast

theorem hard_routing_forward_fails_witness:
  "BiLevelRoutingAttention_init zero_init (scenario_args\<lparr>arg_diff_routing := True\<rparr>)
     = Inr (scenario_module zero_init True False)
   \<and> arg_diff_routing (scenario_args\<lparr>arg_diff_routing := True\<rparr>)
   \<and> \<not> arg_soft_routing (scenario_args\<lparr>arg_diff_routing := True\<rparr>)
   \<and> forward_shape unused_pool
       ((scenario_module zero_init True False)\<lparr>kv_gather := \<lparr>mul_weight = ''none''\<rparr>\<rparr>)
       [1, 16, 16, 16, 32] False
     = Inr [(''out'', [1, 16, 16, 16, 32]), (''q'', [1, 8, 8, 8, 8, 32]),
            (''k'', [1, 8, 8, 8, 8, 32]), (''v'', [1, 8, 8, 8, 8, 32])]
   \<and> forward_shape unused_pool (scenario_module zero_init True False) [1, 16, 16, 16, 32] False
     = Inl NotImplementedError"
proof -
  have i: "BiLevelRoutingAttention_init zero_init (scenario_args\<lparr>arg_diff_routing := True\<rparr>)
     = Inr (scenario_module zero_init True False)"
    by (simp add: init_defs scenario_module_def)
  have d: "arg_diff_routing (scenario_args\<lparr>arg_diff_routing := True\<rparr>)"
    and s: "\<not> arg_soft_routing (scenario_args\<lparr>arg_diff_routing := True\<rparr>)"
    by (simp_all add: scenario_args_def default_args_def)
  have n: "forward_shape unused_pool
       ((scenario_module zero_init True False)\<lparr>kv_gather := \<lparr>mul_weight = ''none''\<rparr>\<rparr>)
       [1, 16, 16, 16, 32] False
     = Inr [(''out'', [1, 16, 16, 16, 32]), (''q'', [1, 8, 8, 8, 8, 32]),
            (''k'', [1, 8, 8, 8, 8, 32]), (''v'', [1, 8, 8, 8, 8, 32])]"
    by (simp add: scenario_module_def shape_defs)
  from hard_routing_forward_fails[OF i d s, of unused_pool "[1, 16, 16, 16, 32]" False] n
  have "forward_shape unused_pool (scenario_module zero_init True False) [1, 16, 16, 16, 32] False
     = Inl NotImplementedError" by blast
  with i d s n show ?thesis by blast
qed

text \<open>
  A call that fails before the gather raises that earlier error: here the divisibility
  assertion of line 243.
\<close>

theorem hard_routing_other_error:
  "BiLevelRoutingAttention_init zero_init (scenario_args\<lparr>arg_diff_routing := True\<rparr>)
     = Inr (scenario_module zero_init True False)
   \<and> forward_shape unused_pool (scenario_module zero_init True False) [1, 15, 16, 16, 32] False
     = Inl AssertionError"
proof (intro conjI)
  show "BiLevelRoutingAttention_init zero_init (scenario_args\<lparr>arg_diff_routing := True\<rparr>)
     = Inr (scenario_module zero_init True False)"
    by (simp add: init_defs scenario_module_def)
  show "forward_shape unused_pool (scenario_module zero_init True False)
     [1, 15, 16, 16, 32] False = Inl AssertionError"
    by (simp add: scenario_module_def shape_defs)
qed

subsection \<open>Indexing\<close>

lemma in_range_Nil [simp]: "in_range [] idx \<longleftrightarrow> idx = []" "in_range s [] \<longleftrightarrow> s = []"
  by (auto simp: in_range_def)

lemma in_range_Cons [simp]:
  "in_range (d # s) (i # idx) \<longleftrightarrow> i < d \<and> in_range s idx"
  by (simp add: in_range_def)

lemma in_range_Cons1:
  "in_range (d # s) idx \<longleftrightarrow> (\<exists>i r. idx = i # r \<and> i < d \<and> in_range s r)"
  by (cases idx) (auto simp: in_range_def)

lemma in_range_length: "in_range s idx \<Longrightarrow> length idx = length s"
  by (simp add: in_range_def list_all2_lengthD)

lemma in_range_snoc:
  "in_range (s @ [k]) (pre @ [j]) \<longleftrightarrow> in_range s pre \<and> j < k"
proof (induction pre arbitrary: s)
  case Nil
  then show ?case by (cases s) (auto simp: in_range_def)
next
  case (Cons a pre)
  then show ?case by (cases s) (auto simp: in_range_def)
qed

lemma ravel_less: "in_range s idx \<Longrightarrow> ravel s idx < prod_list s"
proof (induction s arbitrary: idx)
  case Nil
  then show ?case by simp
next
  case (Cons d s)
  then obtain i r where idx: "idx = i # r" and i: "i < d" and r: "in_range s r"
    by (auto simp: in_range_Cons1)
  have "ravel s r < prod_list s" by (rule Cons.IH[OF r])
  moreover have "i * prod_list s + prod_list s \<le> d * prod_list s"
    using i by (metis Suc_leI mult_Suc mult_le_mono1 add.commute)
  ultimately show ?case using idx by simp
qed

lemma unravel_ravel: "in_range s idx \<Longrightarrow> unravel s (ravel s idx) = idx"
proof (induction s arbitrary: idx)
  case Nil
  then show ?case by simp
next
  case (Cons d s)
  then obtain i r where idx: "idx = i # r" and i: "i < d" and r: "in_range s r"
    by (auto simp: in_range_Cons1)
  have l: "ravel s r < prod_list s" by (rule ravel_less[OF r])
  show ?case using idx l Cons.IH[OF r] by simp
qed

lemma in_range_unravel: "k < prod_list s \<Longrightarrow> in_range s (unravel s k)"
proof (induction s arbitrary: k)
  case Nil
  then show ?case by simp
next
  case (Cons d s)
  then have pos: "0 < prod_list s" by (cases "prod_list s = 0") auto
  have "k div prod_list s < d"
    using Cons.prems pos by (simp add: less_mult_imp_div_less mult.commute)
  moreover have "in_range s (unravel s (k mod prod_list s))"
    using pos by (intro Cons.IH) simp
  ultimately show ?case by simp
qed

lemma ravel_unravel: "k < prod_list s \<Longrightarrow> ravel s (unravel s k) = k"
proof (induction s arbitrary: k)
  case Nil
  then show ?case by simp
next
  case (Cons d s)
  then have pos: "0 < prod_list s" by (cases "prod_list s = 0") auto
  have "ravel s (unravel s (k mod prod_list s)) = k mod prod_list s"
    using pos by (intro Cons.IH) simp
  then show ?case by simp
qed

lemma shape_tabulate [simp]: "shape (tabulate s f) = s"
  by (simp add: tabulate_def)

lemma wf_tabulate [simp]: "wf (tabulate s f)"
  by (simp add: tabulate_def wf_def)

lemma length_data_tabulate [simp]: "length (data (tabulate s f)) = prod_list s"
  by (simp add: tabulate_def)

lemma item_tabulate: "in_range s idx \<Longrightarrow> item (tabulate s f) idx = f idx"
  by (simp add: item_def tabulate_def ravel_less unravel_ravel)

lemma data_tabulate_nth:
  "k < prod_list s \<Longrightarrow> data (tabulate s f) ! k = f (unravel s k)"
  by (simp add: tabulate_def)

lemma map_sum_Inr_iff: "map_sum id f r = Inr y \<longleftrightarrow> (\<exists>v. r = Inr v \<and> f v = y)"
  by (cases r) auto

lemma map_sum_Inl_iff: "map_sum id f r = Inl e \<longleftrightarrow> r = Inl e"
  by (cases r) auto

lemma map_sum_bind_err:
  assumes "map_sum id f r = r'" and "\<And>v. map_sum id g (h v) = h' (f v)"
  shows "map_sum id g (bind_err r h) = bind_err r' h'"
  using assms by (cases r) auto

lemma upt_small: "[0..<1] = [0]" "[0..<2] = [0, 1]" "[0..<4] = [0, 1, 2, 3]"
  by (simp_all add: upt_conv_Cons)

subsection \<open>Top-k and softmax\<close>

lemma length_topk_list: "length (topk_list k xs) = min k (length xs)"
  by (simp add: topk_list_def min.commute)

lemma distinct_snd_sort_key:
  "distinct (map snd ps) \<Longrightarrow> distinct (map snd (sort_key f ps))"
  by (simp add: distinct_map)

lemma distinct_topk_list: "distinct (map snd (topk_list k xs))"
proof -
  have "distinct (map snd (zip xs [0..<length xs]))" by simp
  then have "distinct (map snd (sort_key (\<lambda>(v, i). - v) (zip xs [0..<length xs])))"
    by (rule distinct_snd_sort_key)
  then show ?thesis
    by (simp add: topk_list_def take_map[symmetric] distinct_take)
qed

lemma topk_list_mem:
  assumes "p \<in> set (topk_list k xs)"
  shows "snd p < length xs \<and> fst p = xs ! snd p"
proof -
  from assms have "p \<in> set (sort_key (\<lambda>(v, i). - v) (zip xs [0..<length xs]))"
    unfolding topk_list_def by (rule in_set_takeD)
  then have "p \<in> set (zip xs [0..<length xs])" by simp
  then show ?thesis by (auto simp: in_set_zip)
qed

lemma set_topk_list_full:
  assumes "length xs \<le> k"
  shows "snd ` set (topk_list k xs) = {..<length xs}"
proof -
  have "topk_list k xs = sort_key (\<lambda>(v, i). - v) (zip xs [0..<length xs])"
    using assms by (simp add: topk_list_def)
  then have "snd ` set (topk_list k xs) = set (map snd (zip xs [0..<length xs]))"
    by (simp del: map_snd_zip)
  also have "map snd (zip xs [0..<length xs]) = [0..<length xs]"
    by (rule map_snd_zip) simp
  finally show ?thesis by (simp add: atLeast0LessThan)
qed

lemma torch_topk_Inr:
  assumes "torch_topk k t = Inr (vals, idx)"
  shows "shape t \<noteq> [] \<and> k \<le> last (shape t)
       \<and> shape vals = butlast (shape t) @ [k] \<and> shape idx = butlast (shape t) @ [k]"
  using assms
  by (auto simp: torch_topk_def torch_topk_shape_def bind_err_Inr_iff split: if_splits)

lemma torch_topk_row:
  assumes "torch_topk k t = Inr (vals, idx)" and "in_range (butlast (shape t)) pre"
  shows "row idx pre = map snd (topk_list k (row t pre))"
    and "row vals pre = map fst (topk_list k (row t pre))"
proof -
  from torch_topk_Inr[OF assms(1)] have ne: "shape t \<noteq> []" and k: "k \<le> last (shape t)"
    and sv: "shape vals = butlast (shape t) @ [k]" and si: "shape idx = butlast (shape t) @ [k]"
    by auto
  have len: "length (topk_list k (row t pre)) = k"
    using k by (simp add: length_topk_list row_def)
  have v: "vals = tabulate (butlast (shape t) @ [k])
                    (\<lambda>idx. fst (topk_list k (row t (butlast idx)) ! last idx))"
    and i: "idx = tabulate (butlast (shape t) @ [k])
                    (\<lambda>idx. snd (topk_list k (row t (butlast idx)) ! last idx))"
    using assms(1) ne k by (auto simp: torch_topk_def torch_topk_shape_def)
  show "row idx pre = map snd (topk_list k (row t pre))"
  proof (rule nth_equalityI)
    show "length (row idx pre) = length (map snd (topk_list k (row t pre)))"
      using len by (simp add: row_def si)
    fix j assume "j < length (row idx pre)"
    then have j: "j < k" by (simp add: row_def si)
    have "item idx (pre @ [j]) = snd (topk_list k (row t pre) ! j)"
      by (subst i) (simp add: item_tabulate in_range_snoc assms(2) j)
    then show "row idx pre ! j = map snd (topk_list k (row t pre)) ! j"
      using j len by (simp add: row_def si)
  qed
  show "row vals pre = map fst (topk_list k (row t pre))"
  proof (rule nth_equalityI)
    show "length (row vals pre) = length (map fst (topk_list k (row t pre)))"
      using len by (simp add: row_def sv)
    fix j assume "j < length (row vals pre)"
    then have j: "j < k" by (simp add: row_def sv)
    have "item vals (pre @ [j]) = fst (topk_list k (row t pre) ! j)"
      by (subst v) (simp add: item_tabulate in_range_snoc assms(2) j)
    then show "row vals pre ! j = map fst (topk_list k (row t pre)) ! j"
      using j len by (simp add: row_def sv)
  qed
qed

lemma shape_softmax [simp]: "shape (softmax t) = shape t"
  by (simp add: softmax_def)







subsection \<open>The router\<close>

lemma shape_scalar_mul [simp]: "shape (scalar_mul c t) = shape t"
  by (simp add: scalar_mul_def)

lemma emb_shape_link: "map_sum id shape (emb l x) = emb_shape l (shape x)"
  by (auto simp: emb_def emb_shape_def Linear_forward_def bind_err_def
      split: option.splits sum.splits)

lemma transpose_last2_shape_link:
  "map_sum id shape (transpose_last2 t) = transpose_last2_shape (shape t)"
  by (auto simp: transpose_last2_def bind_err_def split: sum.splits)

lemma matmul_shape_link: "map_sum id shape (matmul a b) = matmul_shape (shape a) (shape b)"
  by (auto simp: matmul_def matmul_shape_def bind_err_def Let_def
      split: sum.splits option.splits if_splits)

lemma torch_topk_shape_link:
  "map_sum id (\<lambda>(v, i). (shape v, shape i)) (torch_topk k t)
     = map_sum id (\<lambda>s. (s, s)) (torch_topk_shape k (shape t))"
  by (auto simp: torch_topk_def bind_err_def split: sum.splits)

lemma TopkRouting_logits_shape_link:
  "map_sum id shape (TopkRouting_logits rt query key) =
     bind_err (emb_shape (r_emb rt) (shape query)) (\<lambda>query_hat.
     bind_err (emb_shape (r_emb rt) (shape key)) (\<lambda>key_hat.
     bind_err (transpose_last2_shape key_hat) (\<lambda>key_t.
     matmul_shape query_hat key_t)))"
  unfolding TopkRouting_logits_def
  apply (rule map_sum_bind_err[OF emb_shape_link])
  apply (rule map_sum_bind_err[OF emb_shape_link])
  apply (rule map_sum_bind_err[OF transpose_last2_shape_link])
  apply (simp add: matmul_shape_link)
  done

text \<open>The shapes computed by \<open>TopkRouting_forward_shape\<close> are those of the values.\<close>

lemma TopkRouting_forward_shape_link:
  "map_sum id (\<lambda>(w, i). (shape w, shape i)) (TopkRouting_forward rt query key)
     = TopkRouting_forward_shape rt (shape query) (shape key)"
proof -
  have "TopkRouting_forward_shape rt (shape query) (shape key) =
     bind_err (map_sum id shape (TopkRouting_logits rt query key)) (\<lambda>attn_logit.
     bind_err (torch_topk_shape (r_topk rt) attn_logit) (\<lambda>tk. Inr (tk, tk)))"
    unfolding TopkRouting_logits_shape_link TopkRouting_forward_shape_def
    by (simp add: bind_err_def split: sum.splits)
  also have "\<dots> = map_sum id (\<lambda>(w, i). (shape w, shape i)) (TopkRouting_forward rt query key)"
  proof (cases "TopkRouting_logits rt query key")
    case (Inl e)
    then show ?thesis by (simp add: TopkRouting_forward_def)
  next
    case (Inr l)
    show ?thesis
      using torch_topk_shape_link[of "r_topk rt" l] Inr
      by (cases "torch_topk (r_topk rt) l")
         (auto simp: TopkRouting_forward_def map_sum_Inl_iff map_sum_Inr_iff bind_err_def
          split: sum.splits)
  qed
  finally show ?thesis by simp
qed

lemma TopkRouting_forward_shape_3d:
  assumes "r_topk rt \<le> p2" and "\<forall>lin. r_emb rt = Some lin \<longrightarrow> in_features lin = c"
  shows "TopkRouting_forward_shape rt [n, p2, c] [n, p2, c]
           = Inr ([n, p2, r_topk rt], [n, p2, r_topk rt])"
  using assms
  by (auto simp: TopkRouting_forward_shape_def emb_shape_def Linear_shape_def
      transpose_last2_shape_def matmul_shape_def broadcast_shapes_def torch_topk_shape_def
      split: option.splits)

lemma TopkRouting_forward_Inr:
  assumes "TopkRouting_forward rt query key = Inr (r_weight, topk_index)"
  obtains attn_logit topk_attn_logit where
    "TopkRouting_logits rt query key = Inr attn_logit"
    "torch_topk (r_topk rt) attn_logit = Inr (topk_attn_logit, topk_index)"
    "r_weight = softmax topk_attn_logit"
  using assms by (auto simp: TopkRouting_forward_def bind_err_Inr_iff)

lemmas value_defs = TopkRouting_forward_def TopkRouting_logits_def emb_def transpose_last2_def
  transpose_last2_shape_def matmul_def matmul_shape_def broadcast_shapes_def scalar_mul_def
  torch_topk_def torch_topk_shape_def softmax_def tabulate_def item_def row_def topk_list_def
  bcast_index_def Let_def



lemma example_top3:
  "TopkRouting_forward (example_router 3) example_windows example_windows = Inl RuntimeError"
  by (simp add: example_router_def example_windows_def value_defs upt_small)






text \<open>The index rows of the router: as many as \<open>topk\<close>, distinct, in range.\<close>

lemma TopkRouting_forward_rows:
  assumes "shape query = [n, p2, c]" and "shape key = [n, p2, c]"
    and "r_topk rt \<le> p2"
    and "\<forall>lin. r_emb rt = Some lin \<longrightarrow> in_features lin = c"
  shows "\<exists>r_weight topk_index.
           TopkRouting_forward rt query key = Inr (r_weight, topk_index)
         \<and> shape topk_index = [n, p2, r_topk rt]
         \<and> (\<forall>b < n. \<forall>i < p2.
               length (row topk_index [b, i]) = r_topk rt
             \<and> distinct (row topk_index [b, i])
             \<and> (\<forall>j \<in> set (row topk_index [b, i]). j < p2))"
proof -
  from TopkRouting_forward_shape_3d[OF assms(3,4), of n]
  have "TopkRouting_forward_shape rt (shape query) (shape key)
           = Inr ([n, p2, r_topk rt], [n, p2, r_topk rt])"
    using assms(1,2) by simp
  then obtain r_weight topk_index where
    f: "TopkRouting_forward rt query key = Inr (r_weight, topk_index)"
    and si: "shape topk_index = [n, p2, r_topk rt]"
    unfolding TopkRouting_forward_shape_link[symmetric] by (auto simp: map_sum_Inr_iff)
  from f obtain attn_logit topk_attn_logit where
    l: "TopkRouting_logits rt query key = Inr attn_logit"
    and t: "torch_topk (r_topk rt) attn_logit = Inr (topk_attn_logit, topk_index)"
    by (rule TopkRouting_forward_Inr)
  have "map_sum id shape (TopkRouting_logits rt query key) = Inr [n, p2, p2]"
    unfolding TopkRouting_logits_shape_link using assms
    by (auto simp: emb_shape_def Linear_shape_def
      transpose_last2_shape_def matmul_shape_def broadcast_shapes_def split: option.splits)
  with l have sa: "shape attn_logit = [n, p2, p2]" by simp
  have "length (row topk_index [b, i]) = r_topk rt
             \<and> distinct (row topk_index [b, i])
             \<and> (\<forall>j \<in> set (row topk_index [b, i]). j < p2)" if "b < n" "i < p2" for b i
  proof -
    have r: "in_range (butlast (shape attn_logit)) [b, i]" using that sa by simp
    have ri: "row topk_index [b, i] = map snd (topk_list (r_topk rt) (row attn_logit [b, i]))"
      using torch_topk_row[OF t r] by simp
    have "length (row attn_logit [b, i]) = p2" by (simp add: row_def sa)
    then show ?thesis unfolding ri
      using assms(3) topk_list_mem[of _ "r_topk rt" "row attn_logit [b, i]"]
      by (auto simp: length_topk_list distinct_topk_list)
  qed
  with f si show ?thesis by blast
qed

text \<open>
  Claim C4. For summaries of shape \<open>(n, p2, c)\<close> and \<open>topk \<le> p2\<close>,
  \<^verbatim>\<open>TopkRouting.forward\<close> returns, and the \<open>topk\<close> indices of every query window are
  pairwise distinct and less than the number \<open>p2\<close> of windows. (A parametric router needs
  \<open>c\<close> to be the width of its linear layer.)
\<close>

theorem routing_indices_distinct_in_range:
  assumes "shape query = [n, p2, c]" and "shape key = [n, p2, c]"
    and "r_topk rt \<le> p2"
    and "\<forall>lin. r_emb rt = Some lin \<longrightarrow> in_features lin = c"
  shows "\<exists>r_weight topk_index.
           TopkRouting_forward rt query key = Inr (r_weight, topk_index)
         \<and> shape topk_index = [n, p2, r_topk rt]
         \<and> (\<forall>b < n. \<forall>i < p2.
               length (row topk_index [b, i]) = r_topk rt
             \<and> distinct (row topk_index [b, i])
             \<and> (\<forall>j \<in> set (row topk_index [b, i]). j < p2))"
  using assms by (rule TopkRouting_forward_rows)

theorem routing_indices_distinct_in_range_witness:
  "shape example_windows = [1, 2, 1]
   \<and> r_topk (example_router 2) \<le> 2
   \<and> r_emb (example_router 2) = None
   \<and> (\<exists>r_weight topk_index.
        TopkRouting_forward (example_router 2) example_windows example_windows
          = Inr (r_weight, topk_index)
      \<and> shape topk_index = [1, 2, 2]
      \<and> distinct (row topk_index [0, 1]))"
proof -
  have s: "shape example_windows = [1, 2, 1]" by (simp add: example_windows_def)
  have k: "r_topk (example_router 2) \<le> 2" by (simp add: example_router_def)
  have e: "\<forall>lin. r_emb (example_router 2) = Some lin \<longrightarrow> in_features lin = 1"
    by (simp add: example_router_def)
  from routing_indices_distinct_in_range[OF s s k e] s k
  show ?thesis by (auto simp: example_router_def)
qed

subsection \<open>The gatherer\<close>

lemma view_Inr: "prod_list s = prod_list (shape t) \<Longrightarrow> view s t = Inr (t\<lparr>shape := s\<rparr>)"
  by (simp add: view_def)

lemma item_reshaped: "item (t\<lparr>shape := s\<rparr>) idx = data t ! ravel s idx"
  by (simp add: item_def)

lemma bcast_index_5:
  "bcast_index [a, b, c, d, e] [i, j, k, l, m] =
     [if a = 1 then 0 else i, if b = 1 then 0 else j, if c = 1 then 0 else k,
      if d = 1 then 0 else l, if e = 1 then 0 else m]"
  by (simp add: bcast_index_def)

lemma in_range_5:
  "in_range [a, b, c, d, e] idx \<longleftrightarrow>
     (\<exists>i j k l m. idx = [i, j, k, l, m] \<and> i < a \<and> j < b \<and> k < c \<and> l < d \<and> m < e)"
  by (auto simp: in_range_Cons1)

lemma expand_kv:
  "expand [None, Some p2, None, None, None] (t\<lparr>shape := [n, 1, p2, w2, c]\<rparr>) =
     Inr (tabulate [n, p2, p2, w2, c]
            (\<lambda>idx. item (t\<lparr>shape := [n, 1, p2, w2, c]\<rparr>) (bcast_index [n, 1, p2, w2, c] idx)))"
  by (simp add: expand_def)

lemma expand_idx:
  "expand [None, None, None, Some w2, Some c] (t\<lparr>shape := [n, p2, k, 1, 1]\<rparr>) =
     Inr (tabulate [n, p2, k, w2, c]
            (\<lambda>idx. item (t\<lparr>shape := [n, p2, k, 1, 1]\<rparr>) (bcast_index [n, p2, k, 1, 1] idx)))"
  by (simp add: expand_def)

lemma item_kv_all:
  assumes "shape kv = [n, p2, w2, c]" "b < n" "i < p2" "r < p2" "p < w2" "ch < c"
  shows "item (tabulate [n, p2, p2, w2, c]
            (\<lambda>idx. item (kv\<lparr>shape := [n, 1, p2, w2, c]\<rparr>) (bcast_index [n, 1, p2, w2, c] idx)))
           [b, i, r, p, ch] = item kv [b, r, p, ch]"
proof -
  have "item (tabulate [n, p2, p2, w2, c]
            (\<lambda>idx. item (kv\<lparr>shape := [n, 1, p2, w2, c]\<rparr>) (bcast_index [n, 1, p2, w2, c] idx)))
           [b, i, r, p, ch]
      = item (kv\<lparr>shape := [n, 1, p2, w2, c]\<rparr>) (bcast_index [n, 1, p2, w2, c] [b, i, r, p, ch])"
    by (rule item_tabulate) (simp add: assms)
  also have "\<dots> = item kv [b, r, p, ch]"
    using assms by (auto simp: bcast_index_5 item_def)
  finally show ?thesis .
qed

lemma item_idx_all:
  assumes "shape r_idx = [n, p2, k]" "b < n" "i < p2" "j < k" "p < w2" "ch < c"
  shows "item (tabulate [n, p2, k, w2, c]
            (\<lambda>idx. item (r_idx\<lparr>shape := [n, p2, k, 1, 1]\<rparr>) (bcast_index [n, p2, k, 1, 1] idx)))
           [b, i, j, p, ch] = item r_idx [b, i, j]"
proof -
  have "item (tabulate [n, p2, k, w2, c]
            (\<lambda>idx. item (r_idx\<lparr>shape := [n, p2, k, 1, 1]\<rparr>) (bcast_index [n, p2, k, 1, 1] idx)))
           [b, i, j, p, ch]
      = item (r_idx\<lparr>shape := [n, p2, k, 1, 1]\<rparr>) (bcast_index [n, p2, k, 1, 1] [b, i, j, p, ch])"
    by (rule item_tabulate) (simp add: assms)
  also have "\<dots> = item r_idx [b, i, j]"
    using assms by (auto simp: bcast_index_5 item_def)
  finally show ?thesis .
qed

lemma list_all_data_tabulate:
  "list_all P (take (prod_list s) (data (tabulate s f))) \<longleftrightarrow> (\<forall>idx. in_range s idx \<longrightarrow> P (f idx))"
proof -
  have "list_all P (take (prod_list s) (data (tabulate s f))) \<longleftrightarrow> (\<forall>k < prod_list s. P (f (unravel s k)))"
    by (auto simp: tabulate_def list_all_iff)
  also have "\<dots> \<longleftrightarrow> (\<forall>idx. in_range s idx \<longrightarrow> P (f idx))"
    by (metis in_range_unravel ravel_less unravel_ravel)
  finally show ?thesis .
qed

lemma gather_kv:
  assumes kv: "shape kv = [n, p2, w2, c]" and ri: "shape r_idx = [n, p2, k]"
    and rng: "\<forall>b < n. \<forall>i < p2. \<forall>j < k. item r_idx [b, i, j] < p2"
  defines "kv_all \<equiv> tabulate [n, p2, p2, w2, c]
            (\<lambda>idx. item (kv\<lparr>shape := [n, 1, p2, w2, c]\<rparr>) (bcast_index [n, 1, p2, w2, c] idx))"
    and "idx_all \<equiv> tabulate [n, p2, k, w2, c]
            (\<lambda>idx. item (r_idx\<lparr>shape := [n, p2, k, 1, 1]\<rparr>) (bcast_index [n, p2, k, 1, 1] idx))"
  shows "\<exists>t. gather kv_all 2 idx_all = Inr t \<and> shape t = [n, p2, k, w2, c]
     \<and> (\<forall>b < n. \<forall>i < p2. \<forall>j < k. \<forall>p < w2. \<forall>ch < c.
          item t [b, i, j, p, ch] = item kv [b, item r_idx [b, i, j], p, ch])"
proof -
  have ia: "item idx_all [b, i, j, p, ch] = item r_idx [b, i, j]"
    if "b < n" "i < p2" "j < k" "p < w2" "ch < c" for b i j p ch
    unfolding idx_all_def using item_idx_all[OF ri that] .
  have chk: "list_all (\<lambda>v. v < p2) (take (prod_list (shape idx_all)) (data idx_all))"
    unfolding idx_all_def shape_tabulate list_all_data_tabulate
    using rng ri by (auto simp: in_range_5 bcast_index_5 item_def)
  have dims: "list_all (\<lambda>a. a = 2 \<or> shape idx_all ! a \<le> shape kv_all ! a) [0..<length (shape kv_all)]"
    by (simp add: kv_all_def idx_all_def upt_conv_Cons)
  have g: "gather kv_all 2 idx_all =
      Inr (tabulate [n, p2, k, w2, c] (\<lambda>idx. item kv_all (idx[2 := item idx_all idx])))"
    using chk dims unfolding gather_def
    by (simp add: kv_all_def idx_all_def)
  show ?thesis
  proof (intro exI conjI allI impI)
    show "gather kv_all 2 idx_all =
      Inr (tabulate [n, p2, k, w2, c] (\<lambda>idx. item kv_all (idx[2 := item idx_all idx])))" by (rule g)
    show "shape (tabulate [n, p2, k, w2, c] (\<lambda>idx. item kv_all (idx[2 := item idx_all idx]))) = [n, p2, k, w2, c]"
      by simp
    fix b i j p ch assume h: "b < n" "i < p2" "j < k" "p < w2" "ch < c"
    have r: "item r_idx [b, i, j] < p2" using rng h by blast
    have "item (tabulate [n, p2, k, w2, c] (\<lambda>idx. item kv_all (idx[2 := item idx_all idx]))) [b, i, j, p, ch]
        = item kv_all [b, i, item idx_all [b, i, j, p, ch], p, ch]"
      using h by (simp add: item_tabulate)
    also have "\<dots> = item kv_all [b, i, item r_idx [b, i, j], p, ch]"
      using ia[OF h] by simp
    also have "\<dots> = item kv [b, item r_idx [b, i, j], p, ch]"
      unfolding kv_all_def using item_kv_all[OF kv h(1,2) r h(4,5)] .
    finally show "item (tabulate [n, p2, k, w2, c] (\<lambda>idx. item kv_all (idx[2 := item idx_all idx]))) [b, i, j, p, ch]
        = item kv [b, item r_idx [b, i, j], p, ch]" .
  qed
qed

lemma broadcast_weight:
  "broadcast_shapes [n, p2, k, 1, 1] [n, p2, k, w2, c] = Some [n, p2, k, w2, c]"
  by (auto simp: broadcast_shapes_def)

lemmas gather_defs = KVGather_forward_def view_def expand_def gather_def mul_def
  broadcast_shapes_def tabulate_def item_def bcast_index_def Let_def

lemma example_gather_none:
  "KVGather_forward \<lparr>mul_weight = ''none''\<rparr> example_idx example_weight example_kv = Inr \<lparr>shape = [1, 2, 1, 1, 1], data = [20, 10]\<rparr>"
  by (simp add: example_kv_def example_idx_def example_weight_def gather_defs upt_small)

lemma example_gather_soft:
  "KVGather_forward \<lparr>mul_weight = ''soft''\<rparr> example_idx example_weight example_kv = Inr \<lparr>shape = [1, 2, 1, 1, 1], data = [10, 5 / 2]\<rparr>"
  by (simp add: example_kv_def example_idx_def example_weight_def gather_defs upt_small)

lemma example_gather_hard:
  "KVGather_forward \<lparr>mul_weight = ''hard''\<rparr> example_idx example_weight example_kv = Inl NotImplementedError"
  by (simp add: example_kv_def example_idx_def example_weight_def gather_defs upt_small)

lemma example_gather_out_of_range:
  "KVGather_forward \<lparr>mul_weight = ''none''\<rparr> (example_idx\<lparr>data := [2, 0]\<rparr>) example_weight example_kv = Inl RuntimeError"
  by (simp add: example_kv_def example_idx_def example_weight_def gather_defs upt_small)

text \<open>The entries of the gathered tensor.\<close>

lemma KVGather_forward_items:
  assumes kv: "shape kv = [n, p2, w2, c]" and ri: "shape r_idx = [n, p2, k]"
    and rw: "shape r_weight = [n, p2, k]"
    and rng: "\<forall>b < n. \<forall>i < p2. \<forall>j < k. item r_idx [b, i, j] < p2"
  shows "(mul_weight g = ''hard'' \<longrightarrow>
            KVGather_forward g r_idx r_weight kv = Inl NotImplementedError)
       \<and> (mul_weight g \<noteq> ''hard'' \<longrightarrow>
            (\<exists>t. KVGather_forward g r_idx r_weight kv = Inr t
                \<and> shape t = [n, p2, k, w2, c]
                \<and> (\<forall>b < n. \<forall>i < p2. \<forall>j < k. \<forall>p < w2. \<forall>ch < c.
                     item t [b, i, j, p, ch] =
                       (if mul_weight g = ''soft''
                        then item r_weight [b, i, j] * item kv [b, item r_idx [b, i, j], p, ch]
                        else item kv [b, item r_idx [b, i, j], p, ch]))))"
proof -
  let ?kv_all = "tabulate [n, p2, p2, w2, c]
            (\<lambda>idx. item (kv\<lparr>shape := [n, 1, p2, w2, c]\<rparr>) (bcast_index [n, 1, p2, w2, c] idx))"
  let ?idx_all = "tabulate [n, p2, k, w2, c]
            (\<lambda>idx. item (r_idx\<lparr>shape := [n, p2, k, 1, 1]\<rparr>) (bcast_index [n, p2, k, 1, 1] idx))"
  from gather_kv[OF kv ri rng] obtain t where
    g: "gather ?kv_all 2 ?idx_all = Inr t" and st: "shape t = [n, p2, k, w2, c]"
    and it: "\<forall>b < n. \<forall>i < p2. \<forall>j < k. \<forall>p < w2. \<forall>ch < c.
          item t [b, i, j, p, ch] = item kv [b, item r_idx [b, i, j], p, ch]"
    by blast
  have f: "KVGather_forward g r_idx r_weight kv =
      (if mul_weight g = ''soft'' then
         bind_err (view [n, p2, k, 1, 1] r_weight) (\<lambda>w5. mul w5 t)
       else if mul_weight g = ''hard'' then Inl NotImplementedError
       else Inr t)"
    unfolding KVGather_forward_def
    using g by (simp add: kv ri view_def expand_kv expand_idx del: One_nat_def)
  show ?thesis
  proof (intro conjI impI)
    assume "mul_weight g = ''hard''"
    then show "KVGather_forward g r_idx r_weight kv = Inl NotImplementedError"
      using f by simp
  next
    assume nh: "mul_weight g \<noteq> ''hard''"
    show "\<exists>t. KVGather_forward g r_idx r_weight kv = Inr t
                \<and> shape t = [n, p2, k, w2, c]
                \<and> (\<forall>b < n. \<forall>i < p2. \<forall>j < k. \<forall>p < w2. \<forall>ch < c.
                     item t [b, i, j, p, ch] =
                       (if mul_weight g = ''soft''
                        then item r_weight [b, i, j] * item kv [b, item r_idx [b, i, j], p, ch]
                        else item kv [b, item r_idx [b, i, j], p, ch]))"
    proof (cases "mul_weight g = ''soft''")
      case False
      with nh f st it show ?thesis by auto
    next
      case True
      let ?w5 = "r_weight\<lparr>shape := [n, p2, k, 1, 1]\<rparr>"
      let ?r = "tabulate [n, p2, k, w2, c] (\<lambda>idx.
                 item ?w5 (bcast_index [n, p2, k, 1, 1] idx) * item t (bcast_index [n, p2, k, w2, c] idx))"
      have m: "KVGather_forward g r_idx r_weight kv = Inr ?r"
        using f True by (simp add: view_def rw mul_def st broadcast_weight del: One_nat_def)
      have "item ?r [b, i, j, p, ch] = item r_weight [b, i, j] * item kv [b, item r_idx [b, i, j], p, ch]"
        if h: "b < n" "i < p2" "j < k" "p < w2" "ch < c" for b i j p ch
      proof -
        have "item ?r [b, i, j, p, ch] =
            item ?w5 (bcast_index [n, p2, k, 1, 1] [b, i, j, p, ch])
          * item t (bcast_index [n, p2, k, w2, c] [b, i, j, p, ch])"
          by (rule item_tabulate) (simp add: h)
        moreover have "item ?w5 (bcast_index [n, p2, k, 1, 1] [b, i, j, p, ch]) = item r_weight [b, i, j]"
          using h rw by (auto simp: bcast_index_5 item_def)
        moreover have "bcast_index [n, p2, k, w2, c] [b, i, j, p, ch] = [b, i, j, p, ch]"
          using h by (auto simp: bcast_index_5)
        ultimately show ?thesis using it h by simp
      qed
      with m True show ?thesis by auto
    qed
  qed
qed

text \<open>
  Claim C5. For \<^verbatim>\<open>kv\<close> of shape \<open>(n, p2, w2, c)\<close>, indices and weights of shape
  \<open>(n, p2, k)\<close> and every index less than \<open>p2\<close>: with \<^verbatim>\<open>mul_weight='hard'\<close>
  \<^verbatim>\<open>KVGather.forward\<close> raises \<^verbatim>\<open>NotImplementedError\<close>; otherwise it returns a tensor of
  shape \<open>(n, p2, k, w2, c)\<close> whose block at \<open>(b, i, j)\<close> is the whole pixel block of
  window \<open>r_idx[b, i, j]\<close> of \<^verbatim>\<open>kv\<close>, one copy for every selection, and with
  \<^verbatim>\<open>mul_weight='soft'\<close> every entry of that block is multiplied by \<open>r_weight[b, i, j]\<close>.
\<close>

theorem kv_gather_selects_blocks:
  assumes kv: "shape kv = [n, p2, w2, c]" and ri: "shape r_idx = [n, p2, k]"
    and rw: "shape r_weight = [n, p2, k]"
    and rng: "\<forall>b < n. \<forall>i < p2. \<forall>j < k. item r_idx [b, i, j] < p2"
  shows "(mul_weight g = ''hard'' \<longrightarrow>
            KVGather_forward g r_idx r_weight kv = Inl NotImplementedError)
       \<and> (mul_weight g \<noteq> ''hard'' \<longrightarrow>
            (\<exists>t. KVGather_forward g r_idx r_weight kv = Inr t
                \<and> shape t = [n, p2, k, w2, c]
                \<and> (\<forall>b < n. \<forall>i < p2. \<forall>j < k. \<forall>p < w2. \<forall>ch < c.
                     item t [b, i, j, p, ch] =
                       (if mul_weight g = ''soft''
                        then item r_weight [b, i, j] * item kv [b, item r_idx [b, i, j], p, ch]
                        else item kv [b, item r_idx [b, i, j], p, ch]))))"
  using assms by (rule KVGather_forward_items)

theorem kv_gather_selects_blocks_witness:
  "shape example_kv = [1, 2, 1, 1] \<and> shape example_idx = [1, 2, 1] \<and> shape example_weight = [1, 2, 1]
   \<and> item example_idx [0, 0, 0] < 2 \<and> item example_idx [0, 1, 0] < 2
   \<and> mul_weight \<lparr>mul_weight = ''soft''\<rparr> \<noteq> ''hard''
   \<and> (\<exists>t. KVGather_forward \<lparr>mul_weight = ''soft''\<rparr> example_idx example_weight example_kv = Inr t
          \<and> shape t = [1, 2, 1, 1, 1]
          \<and> item t [0, 1, 0, 0, 0] = item example_weight [0, 1, 0] * item example_kv [0, item example_idx [0, 1, 0], 0, 0])"
proof -
  have s: "shape example_kv = [1, 2, 1, 1]" "shape example_idx = [1, 2, 1]" "shape example_weight = [1, 2, 1]"
    by (simp_all add: example_kv_def example_idx_def example_weight_def)
  have i: "item example_idx [0, 0, 0] < 2" "item example_idx [0, 1, 0] < 2"
    by (simp_all add: example_idx_def item_def)
  have rng: "\<forall>b < 1. \<forall>i < 2. \<forall>j < 1. item example_idx [b, i, j] < 2"
    using i by (auto simp: less_2_cases_iff)
  from kv_gather_selects_blocks[OF s rng, of "\<lparr>mul_weight = ''soft''\<rparr>"] s i
  show ?thesis by auto
qed

subsection \<open>Partition and reassembly\<close>

lemma item_reshape_tabulate:
  assumes "in_range T J" and "ravel S I = ravel T J"
  shows "item ((tabulate T f)\<lparr>shape := S\<rparr>) I = f J"
  using assms by (simp add: item_def tabulate_def ravel_less unravel_ravel)

lemma item_reshape: "item (t\<lparr>shape := S\<rparr>) I = data t ! ravel S I"
  by (simp add: item_def)

lemma data_reshape_tabulate:
  assumes "in_range T J" and "k = ravel T J"
  shows "data ((tabulate T f)\<lparr>shape := S\<rparr>) ! k = f J"
  using assms by (simp add: tabulate_def ravel_less unravel_ravel)

lemma mixed_less: "a < A \<Longrightarrow> b < B \<Longrightarrow> a * B + b < A * (B :: nat)"
proof -
  assume "a < A" "b < B"
  then have "a * B + b < a * B + B" by simp
  also have "\<dots> = Suc a * B" by simp
  also have "\<dots> \<le> A * B" using \<open>a < A\<close> by (intro mult_le_mono1) simp
  finally show ?thesis .
qed

lemma in_range_9:
  "in_range [s0, s1, s2, s3, s4, s5, s6, s7, s8] idx \<longleftrightarrow>
     (\<exists>a b c d e f g h i. idx = [a, b, c, d, e, f, g, h, i]
        \<and> a < s0 \<and> b < s1 \<and> c < s2 \<and> d < s3 \<and> e < s4 \<and> f < s5 \<and> g < s6 \<and> h < s7 \<and> i < s8)"
  by (auto simp: in_range_Cons1)

lemma upt_8:
  "[0..<5] = [0, 1, 2, 3, 4]" "[0..<6] = [0, 1, 2, 3, 4, 5]"
  "[0..<8] = [0, 1, 2, 3, 4, 5, 6, 7]" "[0..<9] = [0, 1, 2, 3, 4, 5, 6, 7, 8]"
  by (simp_all add: upt_conv_Cons)

lemma permute_partition:
  "permute [0, 1, 3, 5, 2, 4, 6, 7] (t\<lparr>shape := [n, q, d, j, h, i, w, c]\<rparr>) =
     tabulate [n, q, j, i, d, h, w, c]
       (\<lambda>idx. item (t\<lparr>shape := [n, q, d, j, h, i, w, c]\<rparr>)
                 [idx ! 0, idx ! 1, idx ! 4, idx ! 2, idx ! 5, idx ! 3, idx ! 6, idx ! 7])"
  by (simp add: permute_def upt_8 eval_nat_numeral)

lemma permute_heads_q:
  "permute [0, 1, 3, 2, 4] (t\<lparr>shape := [n, p, w, m, c]\<rparr>) =
     tabulate [n, p, m, w, c]
       (\<lambda>idx. item (t\<lparr>shape := [n, p, w, m, c]\<rparr>) [idx ! 0, idx ! 1, idx ! 3, idx ! 2, idx ! 4])"
  by (simp add: permute_def upt_8 eval_nat_numeral)

lemma permute_reassemble:
  "permute [0, 1, 5, 2, 6, 3, 7, 4, 8] (t\<lparr>shape := [n, q, j, i, m, d, h, w, c]\<rparr>) =
     tabulate [n, q, d, j, h, i, w, m, c]
       (\<lambda>idx. item (t\<lparr>shape := [n, q, j, i, m, d, h, w, c]\<rparr>)
                 [idx ! 0, idx ! 1, idx ! 3, idx ! 5, idx ! 7, idx ! 2, idx ! 4, idx ! 6, idx ! 8])"
  by (simp add: permute_def upt_8 eval_nat_numeral)

lemma tensor_eqI: "shape t = shape u \<Longrightarrow> data t = data u \<Longrightarrow> t = (u :: 'a tensor)"
  by simp

lemma partition_reassemble_identity:
  fixes x :: "'a tensor"
  assumes wf: "wf x" and sx: "shape x = [n, nw * ds, nw * hs, nw * ws, m * cs]"
    and nw: "0 < nw" and m: "0 < m"
  shows "partition_reassemble nw m x = Inr x"
proof -
  let ?p3 = "nw * nw * nw"
  let ?w3 = "ds * hs * ws"
  let ?C = "m * cs"
  let ?S1 = "[n, nw, ds, nw, hs, nw, ws, ?C]"
  let ?T1 = "[n, nw, nw, nw, ds, hs, ws, ?C]"
  let ?f1 = "\<lambda>idx. item (x\<lparr>shape := ?S1\<rparr>)
                 [idx ! 0, idx ! 1, idx ! 4, idx ! 2, idx ! 5, idx ! 3, idx ! 6, idx ! 7]"
  let ?X1 = "tabulate ?T1 ?f1"
  let ?S2 = "[n, ?p3, ?w3, m, cs]"
  let ?T2 = "[n, ?p3, m, ?w3, cs]"
  let ?f2 = "\<lambda>idx. item (?X1\<lparr>shape := ?S2\<rparr>) [idx ! 0, idx ! 1, idx ! 3, idx ! 2, idx ! 4]"
  let ?X2 = "tabulate ?T2 ?f2"
  let ?S3 = "[n, nw, nw, nw, m, ds, hs, ws, cs]"
  let ?T3 = "[n, nw, ds, nw, hs, nw, ws, m, cs]"
  let ?f3 = "\<lambda>idx. item (?X2\<lparr>shape := ?S3\<rparr>)
                 [idx ! 0, idx ! 1, idx ! 3, idx ! 5, idx ! 7, idx ! 2, idx ! 4, idx ! 6, idx ! 8]"
  let ?X3 = "tabulate ?T3 ?f3"
  have p3: "0 < ?p3" using nw by simp
  have s1: "rearrange_partition nw x = Inr (?X1\<lparr>shape := [n, ?p3, ds, hs, ws, ?C]\<rparr>)"
    using nw by (simp add: rearrange_partition_def sx permute_partition del: One_nat_def)
  have s2: "rearrange_flatten_pixels (?X1\<lparr>shape := [n, ?p3, ds, hs, ws, ?C]\<rparr>)
      = Inr (?X1\<lparr>shape := [n, ?p3, ?w3, ?C]\<rparr>)"
    by (simp add: rearrange_flatten_pixels_def)
  have s3: "rearrange_heads_q m (?X1\<lparr>shape := [n, ?p3, ?w3, ?C]\<rparr>)
      = Inr (?X2\<lparr>shape := [n * ?p3, m, ?w3, cs]\<rparr>)"
    using m by (simp add: rearrange_heads_q_def permute_heads_q del: One_nat_def)
  have s4: "rearrange_reassemble nw ds hs ws (?X2\<lparr>shape := [n * ?p3, m, ?w3, cs]\<rparr>)
      = Inr (?X3\<lparr>shape := [n, nw * ds, nw * hs, nw * ws, m * cs]\<rparr>)"
    using nw by (simp add: rearrange_reassemble_def permute_reassemble del: One_nat_def)
  have pr: "partition_reassemble nw m x = Inr (?X3\<lparr>shape := [n, nw * ds, nw * hs, nw * ws, m * cs]\<rparr>)"
  proof -
    have d: "shape x ! 1 div nw = ds" "shape x ! 2 div nw = hs" "shape x ! 3 div nw = ws"
      using nw by (simp_all add: sx)
    show ?thesis
      unfolding partition_reassemble_def d
      by (simp only: s1 s2 s3 s4 bind_err_simps)
  qed
  have len: "length (data x) = prod_list ?T3"
    using wf by (simp add: wf_def sx algebra_simps)
  have "data ?X3 = data x"
  proof (rule nth_equalityI)
    show "length (data ?X3) = length (data x)" using len by simp
    fix k assume "k < length (data ?X3)"
    then have k: "k < prod_list ?T3" by simp
    from in_range_unravel[OF k] obtain a q d j h i w mm cc where
      idx: "unravel ?T3 k = [a, q, d, j, h, i, w, mm, cc]"
      and b: "a < n" "q < nw" "d < ds" "j < nw" "h < hs" "i < nw" "w < ws" "mm < m" "cc < cs"
      unfolding in_range_9 by blast
    have kr: "k = ravel ?T3 [a, q, d, j, h, i, w, mm, cc]"
      using ravel_unravel[OF k] unfolding idx by (rule sym)
    have P: "(q * nw + j) * nw + i < ?p3"
      using b by (intro mixed_less) auto
    have W3: "(d * hs + h) * ws + w < ?w3"
      using b by (intro mixed_less) auto
    have CC: "mm * cs + cc < ?C"
      using b by (intro mixed_less) auto
    have "data ?X3 ! k = ?f3 (unravel ?T3 k)"
      by (rule data_tabulate_nth[OF k])
    also have "\<dots> = item (?X2\<lparr>shape := ?S3\<rparr>) [a, q, j, i, mm, d, h, w, cc]"
      unfolding idx by simp
    also have "\<dots> = ?f2 [a, (q * nw + j) * nw + i, mm, (d * hs + h) * ws + w, cc]"
      by (rule item_reshape_tabulate) (use b P W3 in \<open>simp_all add: algebra_simps\<close>)
    also have "\<dots> = item (?X1\<lparr>shape := ?S2\<rparr>) [a, (q * nw + j) * nw + i, (d * hs + h) * ws + w, mm, cc]"
      by simp
    also have "\<dots> = ?f1 [a, q, j, i, d, h, w, mm * cs + cc]"
      by (rule item_reshape_tabulate) (use b CC in \<open>simp_all add: algebra_simps\<close>)
    also have "\<dots> = item (x\<lparr>shape := ?S1\<rparr>) [a, q, d, j, h, i, w, mm * cs + cc]"
      by simp
    also have "\<dots> = data x ! k"
      unfolding kr by (simp add: item_def algebra_simps)
    finally show "data ?X3 ! k = data x ! k" .
  qed
  then have "?X3\<lparr>shape := [n, nw * ds, nw * hs, nw * ws, m * cs]\<rparr> = x"
    using sx by (intro tensor_eqI) simp_all
  with pr show ?thesis by simp
qed

text \<open>
  Claim C10. For an activation whose depth, height and width are divisible by
  \<open>n_win\<close>, partitioning into windows (line 252) and reassembling (lines 315 and 316),
  with only the reshapes of lines 271 and 309 in between and nothing computed, gives the
  original tensor back, for any number of heads \<open>m\<close> that divides the channels.
\<close>

theorem partition_reassemble_round_trip:
  fixes x :: "'a tensor"
  assumes "wf x" and "shape x = [n, D, H, W, C]"
    and "0 < nw" and "nw dvd D" and "nw dvd H" and "nw dvd W"
    and "0 < m" and "m dvd C"
  shows "partition_reassemble nw m x = Inr x"
proof -
  from assms(4,5,6,8) obtain ds hs ws cs where
    "D = nw * ds" "H = nw * hs" "W = nw * ws" "C = m * cs"
    by (auto simp: dvd_def)
  with assms(2) have "shape x = [n, nw * ds, nw * hs, nw * ws, m * cs]" by simp
  from partition_reassemble_identity[OF assms(1) this assms(3,7)] show ?thesis .
qed

theorem partition_reassemble_round_trip_witness:
  "wf example_activation \<and> shape example_activation = [1, 2, 4, 2, 1]
   \<and> (0::nat) < 2 \<and> (2::nat) dvd 2 \<and> (2::nat) dvd 4 \<and> (0::nat) < 1 \<and> (1::nat) dvd 1
   \<and> partition_reassemble 2 1 example_activation = Inr example_activation"
proof -
  have w: "wf example_activation" by (simp add: wf_def example_activation_def)
  have s: "shape example_activation = [1, 2, 4, 2, 1]" by (simp add: example_activation_def)
  from partition_reassemble_round_trip[OF w s, of 2 1] w s show ?thesis by simp
qed

subsection \<open>The attention of lines 302 to 314, entry by entry\<close>

lemma in_range_4:
  "in_range [s0, s1, s2, s3] idx \<longleftrightarrow>
     (\<exists>a b c d. idx = [a, b, c, d] \<and> a < s0 \<and> b < s1 \<and> c < s2 \<and> d < s3)"
  by (auto simp: in_range_Cons1)

lemma item_scalar_mul:
  assumes "wf t" and "in_range (shape t) idx"
  shows "item (scalar_mul c t) idx = item t idx * c"
  using assms ravel_less[OF assms(2)] by (simp add: scalar_mul_def item_def wf_def)

lemma wf_scalar_mul [simp]: "wf (scalar_mul c t) = wf t"
  by (simp add: scalar_mul_def wf_def)

lemma wf_reshape_tabulate: "prod_list S = prod_list T \<Longrightarrow> wf ((tabulate T f)\<lparr>shape := S\<rparr>)"
  by (simp add: wf_def)

lemma bcast_index_2:
  "B < N \<Longrightarrow> h < m \<Longrightarrow> bcast_index [N, m] [B, h] = [B, h]"
  by (auto simp: bcast_index_def)

lemma broadcast_same2: "broadcast_shapes [N, m] [N, m] = Some [N, m]"
  by (simp add: broadcast_shapes_def)

lemma matmul_4d:
  assumes "shape a = [N, m, p, c]" and "shape b = [N, m, c, q]"
  obtains r where "matmul a b = Inr r" and "shape r = [N, m, p, q]" and "wf r"
    and "\<And>B h x l. B < N \<Longrightarrow> h < m \<Longrightarrow> x < p \<Longrightarrow> l < q \<Longrightarrow>
            item r [B, h, x, l] =
              sum_list (map (\<lambda>cc. item a [B, h, x, cc] * item b [B, h, cc, l]) [0..<c])"
proof -
  let ?F = "\<lambda>idx. let bi = butlast (butlast idx); i = last (butlast idx); j = last idx in
                      sum_list (map (\<lambda>cc.
                          item (a\<lparr>shape := [N, m, p, c]\<rparr>) (bcast_index [N, m] bi @ [i, cc])
                        * item (b\<lparr>shape := [N, m, c, q]\<rparr>) (bcast_index [N, m] bi @ [cc, j]))
                        [0..<c])"
  have aa: "a\<lparr>shape := [N, m, p, c]\<rparr> = a" "b\<lparr>shape := [N, m, c, q]\<rparr> = b"
    using assms by simp_all
  have r: "matmul a b = Inr (tabulate [N, m, p, q] ?F)"
    by (simp add: matmul_def matmul_shape_def assms broadcast_same2 Let_def tabulate_def)
  have it: "item (tabulate [N, m, p, q] ?F) [B, h, x, l] =
      sum_list (map (\<lambda>cc. item a [B, h, x, cc] * item b [B, h, cc, l]) [0..<c])"
    if "B < N" "h < m" "x < p" "l < q" for B h x l
  proof -
    have "item (tabulate [N, m, p, q] ?F) [B, h, x, l] = ?F [B, h, x, l]"
      by (rule item_tabulate) (simp add: that)
    also have "\<dots> = sum_list (map (\<lambda>cc. item a [B, h, x, cc] * item b [B, h, cc, l]) [0..<c])"
      using that by (simp add: bcast_index_2 aa)
    finally show ?thesis .
  qed
  show thesis
  proof (rule that)
    show "matmul a b = Inr (tabulate [N, m, p, q] ?F)" by (rule r)
    show "shape (tabulate [N, m, p, q] ?F) = [N, m, p, q]" by simp
    show "wf (tabulate [N, m, p, q] ?F)" by simp
  qed (rule it)
qed

lemma item_softmax_4d:
  assumes "shape t = [N, m, p, q]" "B < N" "h < m" "x < p" "l < q"
  shows "item (softmax t) [B, h, x, l] =
     exp (item t [B, h, x, l]) / sum_list (map (\<lambda>l'. exp (item t [B, h, x, l'])) [0..<q])"
  using assms by (simp add: softmax_def item_tabulate row_def comp_def)

lemma wf_softmax: "shape t \<noteq> [] \<Longrightarrow> wf (softmax t)"
  by (simp add: softmax_def)

lemma split2_5d:
  assumes "shape t = [n, p3, k, w2, a + b]"
  obtains K V where "split2 a b t = Inr (K, V)"
    and "shape K = [n, p3, k, w2, a]" and "shape V = [n, p3, k, w2, b]"
    and "\<And>bb i j p ch. bb < n \<Longrightarrow> i < p3 \<Longrightarrow> j < k \<Longrightarrow> p < w2 \<Longrightarrow> ch < a \<Longrightarrow>
            item K [bb, i, j, p, ch] = item t [bb, i, j, p, ch]"
    and "\<And>bb i j p ch. bb < n \<Longrightarrow> i < p3 \<Longrightarrow> j < k \<Longrightarrow> p < w2 \<Longrightarrow> ch < b \<Longrightarrow>
            item V [bb, i, j, p, ch] = item t [bb, i, j, p, a + ch]"
proof (rule that)
  show "split2 a b t =
     Inr (tabulate [n, p3, k, w2, a] (\<lambda>idx. item t idx),
          tabulate [n, p3, k, w2, b] (\<lambda>idx. item t (butlast idx @ [a + last idx])))"
    using assms by (simp add: split2_def split2_shape_def)
qed (simp_all add: item_tabulate)

lemma permute_heads_k:
  "permute [0, 1, 4, 5, 2, 3] (t\<lparr>shape := [n, p3, k, w2, m, c]\<rparr>) =
     tabulate [n, p3, m, c, k, w2]
       (\<lambda>idx. item (t\<lparr>shape := [n, p3, k, w2, m, c]\<rparr>)
                 [idx ! 0, idx ! 1, idx ! 4, idx ! 5, idx ! 2, idx ! 3])"
  by (simp add: permute_def upt_8 eval_nat_numeral)

lemma permute_heads_v:
  "permute [0, 1, 4, 2, 3, 5] (t\<lparr>shape := [n, p3, k, w2, m, c]\<rparr>) =
     tabulate [n, p3, m, k, w2, c]
       (\<lambda>idx. item (t\<lparr>shape := [n, p3, k, w2, m, c]\<rparr>)
                 [idx ! 0, idx ! 1, idx ! 3, idx ! 4, idx ! 2, idx ! 5])"
  by (simp add: permute_def upt_8 eval_nat_numeral)

lemma heads_k_items:
  assumes "shape t = [n, p3, k, w2, m * c]" and "0 < m"
  obtains r where "rearrange_heads_k m t = Inr r" and "shape r = [n * p3, m, c, k * w2]" and "wf r"
    and "\<And>b i h cc j p. b < n \<Longrightarrow> i < p3 \<Longrightarrow> h < m \<Longrightarrow> cc < c \<Longrightarrow> j < k \<Longrightarrow> p < w2 \<Longrightarrow>
            item r [b * p3 + i, h, cc, j * w2 + p] = item t [b, i, j, p, h * c + cc]"
proof -
  let ?T = "[n, p3, m, c, k, w2]"
  let ?f = "\<lambda>idx. item (t\<lparr>shape := [n, p3, k, w2, m, c]\<rparr>)
                 [idx ! 0, idx ! 1, idx ! 4, idx ! 5, idx ! 2, idx ! 3]"
  let ?r = "(tabulate ?T ?f)\<lparr>shape := [n * p3, m, c, k * w2]\<rparr>"
  have r: "rearrange_heads_k m t = Inr ?r"
    using assms by (simp add: rearrange_heads_k_def permute_heads_k del: One_nat_def)
  have it: "item ?r [b * p3 + i, h, cc, j * w2 + p] = item t [b, i, j, p, h * c + cc]"
    if "b < n" "i < p3" "h < m" "cc < c" "j < k" "p < w2" for b i h cc j p
  proof -
    have "item ?r [b * p3 + i, h, cc, j * w2 + p] = ?f [b, i, h, cc, j, p]"
      by (rule item_reshape_tabulate) (use that in \<open>simp_all add: algebra_simps\<close>)
    also have "\<dots> = item t [b, i, j, p, h * c + cc]"
      by (simp add: item_def assms algebra_simps)
    finally show ?thesis .
  qed
  have w: "wf ?r" by (rule wf_reshape_tabulate) (simp add: algebra_simps)
  show thesis
  proof (rule that)
    show "rearrange_heads_k m t = Inr ?r" by (rule r)
    show "shape ?r = [n * p3, m, c, k * w2]" by simp
    show "wf ?r" by (rule w)
  qed (rule it)
qed

lemma heads_v_items:
  assumes "shape t = [n, p3, k, w2, m * c]" and "0 < m"
  obtains r where "rearrange_heads_v m t = Inr r" and "shape r = [n * p3, m, k * w2, c]" and "wf r"
    and "\<And>b i h j p cc. b < n \<Longrightarrow> i < p3 \<Longrightarrow> h < m \<Longrightarrow> j < k \<Longrightarrow> p < w2 \<Longrightarrow> cc < c \<Longrightarrow>
            item r [b * p3 + i, h, j * w2 + p, cc] = item t [b, i, j, p, h * c + cc]"
proof -
  let ?T = "[n, p3, m, k, w2, c]"
  let ?f = "\<lambda>idx. item (t\<lparr>shape := [n, p3, k, w2, m, c]\<rparr>)
                 [idx ! 0, idx ! 1, idx ! 3, idx ! 4, idx ! 2, idx ! 5]"
  let ?r = "(tabulate ?T ?f)\<lparr>shape := [n * p3, m, k * w2, c]\<rparr>"
  have r: "rearrange_heads_v m t = Inr ?r"
    using assms by (simp add: rearrange_heads_v_def permute_heads_v del: One_nat_def)
  have it: "item ?r [b * p3 + i, h, j * w2 + p, cc] = item t [b, i, j, p, h * c + cc]"
    if "b < n" "i < p3" "h < m" "cc < c" "j < k" "p < w2" for b i h cc j p
  proof -
    have "item ?r [b * p3 + i, h, j * w2 + p, cc] = ?f [b, i, h, j, p, cc]"
      by (rule item_reshape_tabulate) (use that in \<open>simp_all add: algebra_simps\<close>)
    also have "\<dots> = item t [b, i, j, p, h * c + cc]"
      by (simp add: item_def assms algebra_simps)
    finally show ?thesis .
  qed
  have w: "wf ?r" by (rule wf_reshape_tabulate) (simp add: algebra_simps)
  show thesis
  proof (rule that)
    show "rearrange_heads_v m t = Inr ?r" by (rule r)
    show "shape ?r = [n * p3, m, k * w2, c]" by simp
    show "wf ?r" by (rule w)
  qed (rule it)
qed

lemma heads_q_items:
  assumes "shape t = [n, p3, w3, m * c]" and "0 < m"
  obtains r where "rearrange_heads_q m t = Inr r" and "shape r = [n * p3, m, w3, c]" and "wf r"
    and "\<And>b i h x cc. b < n \<Longrightarrow> i < p3 \<Longrightarrow> h < m \<Longrightarrow> x < w3 \<Longrightarrow> cc < c \<Longrightarrow>
            item r [b * p3 + i, h, x, cc] = item t [b, i, x, h * c + cc]"
proof -
  let ?T = "[n, p3, m, w3, c]"
  let ?f = "\<lambda>idx. item (t\<lparr>shape := [n, p3, w3, m, c]\<rparr>) [idx ! 0, idx ! 1, idx ! 3, idx ! 2, idx ! 4]"
  let ?r = "(tabulate ?T ?f)\<lparr>shape := [n * p3, m, w3, c]\<rparr>"
  have r: "rearrange_heads_q m t = Inr ?r"
    using assms by (simp add: rearrange_heads_q_def permute_heads_q del: One_nat_def)
  have it: "item ?r [b * p3 + i, h, x, cc] = item t [b, i, x, h * c + cc]"
    if "b < n" "i < p3" "h < m" "x < w3" "cc < c" for b i h x cc
  proof -
    have "item ?r [b * p3 + i, h, x, cc] = ?f [b, i, h, x, cc]"
      by (rule item_reshape_tabulate) (use that in \<open>simp_all add: algebra_simps\<close>)
    also have "\<dots> = item t [b, i, x, h * c + cc]"
      by (simp add: item_def assms algebra_simps)
    finally show ?thesis .
  qed
  have w: "wf ?r" by (rule wf_reshape_tabulate) (simp add: algebra_simps)
  show thesis
  proof (rule that)
    show "rearrange_heads_q m t = Inr ?r" by (rule r)
    show "shape ?r = [n * p3, m, w3, c]" by simp
    show "wf ?r" by (rule w)
  qed (rule it)
qed

lemma sum_list_upt_cong:
  "(\<And>l. l < n \<Longrightarrow> f l = g l) \<Longrightarrow> sum_list (map f [0..<n]) = sum_list (map g [0..<n])"
  by (rule arg_cong[where f = sum_list]) simp

lemma div_mod_less: "l < k * w2 \<Longrightarrow> l div w2 < k \<and> l mod w2 < (w2 :: nat)"
  by (metis less_mult_imp_div_less mod_less_divisor mult_0_right not_gr_zero not_less_zero)

lemma forward_attend_items:
  assumes sq: "shape q_pix = [n, p3, w3, m * cq]"
    and skv: "shape kvs = [n, p3, k, w2, m * cq + m * cv]"
    and M: "qk_dim M = m * cq" "dim' M = m * cv" "num_heads M = m" and m: "0 < m"
  shows "\<exists>out aw. forward_attend M q_pix kvs = Inr (out, aw)
      \<and> shape out = [n * p3, m, w3, cv] \<and> wf out
      \<and> (\<forall>b < n. \<forall>i < p3. \<forall>h < m. \<forall>x < w3. \<forall>c < cv.
            item out [b * p3 + i, h, x, c] =
              attend_entry (k * w2) cq (scale' M)
                (\<lambda>cc. item q_pix [b, i, x, h * cq + cc])
                (\<lambda>l cc. item kvs [b, i, l div w2, l mod w2, h * cq + cc])
                (\<lambda>l. item kvs [b, i, l div w2, l mod w2, m * cq + h * cv + c]))"
proof -
  obtain K V where
    sp: "split2 (m * cq) (m * cv) kvs = Inr (K, V)"
    and sK: "shape K = [n, p3, k, w2, m * cq]" and sV: "shape V = [n, p3, k, w2, m * cv]"
    and iK: "\<And>b i j p ch. b < n \<Longrightarrow> i < p3 \<Longrightarrow> j < k \<Longrightarrow> p < w2 \<Longrightarrow> ch < m * cq \<Longrightarrow>
            item K [b, i, j, p, ch] = item kvs [b, i, j, p, ch]"
    and iV: "\<And>b i j p ch. b < n \<Longrightarrow> i < p3 \<Longrightarrow> j < k \<Longrightarrow> p < w2 \<Longrightarrow> ch < m * cv \<Longrightarrow>
            item V [b, i, j, p, ch] = item kvs [b, i, j, p, m * cq + ch]"
    by (rule split2_5d[OF skv]) (rule that)
  obtain ks where
    hk: "rearrange_heads_k m K = Inr ks" and sks: "shape ks = [n * p3, m, cq, k * w2]"
    and iks: "\<And>b i h cc j p. b < n \<Longrightarrow> i < p3 \<Longrightarrow> h < m \<Longrightarrow> cc < cq \<Longrightarrow> j < k \<Longrightarrow> p < w2 \<Longrightarrow>
            item ks [b * p3 + i, h, cc, j * w2 + p] = item K [b, i, j, p, h * cq + cc]"
    by (rule heads_k_items[OF sK m]) (rule that)
  obtain vs where
    hv: "rearrange_heads_v m V = Inr vs" and svs: "shape vs = [n * p3, m, k * w2, cv]"
    and ivs: "\<And>b i h j p cc. b < n \<Longrightarrow> i < p3 \<Longrightarrow> h < m \<Longrightarrow> j < k \<Longrightarrow> p < w2 \<Longrightarrow> cc < cv \<Longrightarrow>
            item vs [b * p3 + i, h, j * w2 + p, cc] = item V [b, i, j, p, h * cv + cc]"
    by (rule heads_v_items[OF sV m]) (rule that)
  obtain qh where
    hq: "rearrange_heads_q m q_pix = Inr qh" and sqh: "shape qh = [n * p3, m, w3, cq]"
    and wqh: "wf qh"
    and iqh: "\<And>b i h x cc. b < n \<Longrightarrow> i < p3 \<Longrightarrow> h < m \<Longrightarrow> x < w3 \<Longrightarrow> cc < cq \<Longrightarrow>
            item qh [b * p3 + i, h, x, cc] = item q_pix [b, i, x, h * cq + cc]"
    by (rule heads_q_items[OF sq m]) (rule that)
  have ssq: "shape (scalar_mul (scale' M) qh) = [n * p3, m, w3, cq]" by (simp add: sqh)
  obtain lg where
    ml: "matmul (scalar_mul (scale' M) qh) ks = Inr lg"
    and slg: "shape lg = [n * p3, m, w3, k * w2]"
    and ilg: "\<And>B h x l. B < n * p3 \<Longrightarrow> h < m \<Longrightarrow> x < w3 \<Longrightarrow> l < k * w2 \<Longrightarrow>
            item lg [B, h, x, l] =
              sum_list (map (\<lambda>cc. item (scalar_mul (scale' M) qh) [B, h, x, cc] * item ks [B, h, cc, l]) [0..<cq])"
    by (rule matmul_4d[OF ssq sks]) (rule that)
  have ssm: "shape (softmax lg) = [n * p3, m, w3, k * w2]" by (simp add: slg)
  obtain out where
    mo: "matmul (softmax lg) vs = Inr out"
    and so: "shape out = [n * p3, m, w3, cv]" and wo: "wf out"
    and io: "\<And>B h x c. B < n * p3 \<Longrightarrow> h < m \<Longrightarrow> x < w3 \<Longrightarrow> c < cv \<Longrightarrow>
            item out [B, h, x, c] =
              sum_list (map (\<lambda>l. item (softmax lg) [B, h, x, l] * item vs [B, h, l, c]) [0..<k * w2])"
    by (rule matmul_4d[OF ssm svs]) (rule that)
  have fa: "forward_attend M q_pix kvs = Inr (out, softmax lg)"
    by (simp add: forward_attend_def M sp hk hv hq ml mo)
  have "item out [b * p3 + i, h, x, c] =
              attend_entry (k * w2) cq (scale' M)
                (\<lambda>cc. item q_pix [b, i, x, h * cq + cc])
                (\<lambda>l cc. item kvs [b, i, l div w2, l mod w2, h * cq + cc])
                (\<lambda>l. item kvs [b, i, l div w2, l mod w2, m * cq + h * cv + c])"
    if h: "b < n" "i < p3" "h < m" "x < w3" "c < cv" for b i h x c
  proof -
    let ?B = "b * p3 + i"
    have B: "?B < n * p3" using h by (intro mixed_less)
    have lgl: "item lg [?B, h, x, l] =
        sum_list (map (\<lambda>cc. item q_pix [b, i, x, h * cq + cc] * scale' M
                         * item kvs [b, i, l div w2, l mod w2, h * cq + cc]) [0..<cq])"
      if l: "l < k * w2" for l
    proof -
      from div_mod_less[OF l] have j: "l div w2 < k" and p: "l mod w2 < w2" by auto
      have "item lg [?B, h, x, l] =
          sum_list (map (\<lambda>cc. item (scalar_mul (scale' M) qh) [?B, h, x, cc] * item ks [?B, h, cc, l]) [0..<cq])"
        by (rule ilg[OF B h(3,4) l])
      also have "\<dots> = sum_list (map (\<lambda>cc. item q_pix [b, i, x, h * cq + cc] * scale' M
                         * item kvs [b, i, l div w2, l mod w2, h * cq + cc]) [0..<cq])"
      proof (rule sum_list_upt_cong)
        fix cc assume cc: "cc < cq"
        have hc: "h * cq + cc < m * cq" using h(3) cc by (intro mixed_less)
        have "item (scalar_mul (scale' M) qh) [?B, h, x, cc] = item qh [?B, h, x, cc] * scale' M"
          by (rule item_scalar_mul[OF wqh]) (simp add: sqh B h cc)
        moreover have "item ks [?B, h, cc, l] = item K [b, i, l div w2, l mod w2, h * cq + cc]"
          using iks[OF h(1,2,3) cc j p] by simp
        ultimately show "item (scalar_mul (scale' M) qh) [?B, h, x, cc] * item ks [?B, h, cc, l]
            = item q_pix [b, i, x, h * cq + cc] * scale' M
                         * item kvs [b, i, l div w2, l mod w2, h * cq + cc]"
          using iqh[OF h(1,2,3,4) cc] iK[OF h(1,2) j p hc] by simp
      qed
      finally show ?thesis .
    qed
    have vl: "item vs [?B, h, l, c] = item kvs [b, i, l div w2, l mod w2, m * cq + h * cv + c]"
      if l: "l < k * w2" for l
    proof -
      from div_mod_less[OF l] have j: "l div w2 < k" and p: "l mod w2 < w2" by auto
      have hc: "h * cv + c < m * cv" using h(3,5) by (intro mixed_less)
      show ?thesis using ivs[OF h(1,2,3) j p h(5)] iV[OF h(1,2) j p hc] by (simp add: add.assoc)
    qed
    have "item out [?B, h, x, c] =
        sum_list (map (\<lambda>l. item (softmax lg) [?B, h, x, l] * item vs [?B, h, l, c]) [0..<k * w2])"
      by (rule io[OF B h(3,4,5)])
    also have "\<dots> = sum_list (map (\<lambda>l.
           exp (item lg [?B, h, x, l]) / sum_list (map (\<lambda>l'. exp (item lg [?B, h, x, l'])) [0..<k * w2])
         * item kvs [b, i, l div w2, l mod w2, m * cq + h * cv + c]) [0..<k * w2])"
      by (rule sum_list_upt_cong) (simp add: item_softmax_4d[OF slg B h(3,4)] vl)
    also have "\<dots> = attend_entry (k * w2) cq (scale' M)
                (\<lambda>cc. item q_pix [b, i, x, h * cq + cc])
                (\<lambda>l cc. item kvs [b, i, l div w2, l mod w2, h * cq + cc])
                (\<lambda>l. item kvs [b, i, l div w2, l mod w2, m * cq + h * cv + c])"
    proof -
      have Z: "sum_list (map (\<lambda>l'. exp (item lg [?B, h, x, l'])) [0..<k * w2])
          = sum_list (map (\<lambda>l'. exp (sum_list (map (\<lambda>cc. item q_pix [b, i, x, h * cq + cc] * scale' M
                         * item kvs [b, i, l' div w2, l' mod w2, h * cq + cc]) [0..<cq]))) [0..<k * w2])"
        by (rule sum_list_upt_cong) (simp add: lgl)
      show ?thesis
        unfolding attend_entry_def Z
        by (rule sum_list_upt_cong) (simp add: lgl)
    qed
    finally show ?thesis .
  qed
  with fa so wo show ?thesis by blast
qed

subsection \<open>Routing to every window\<close>

text \<open>Sums over a permuted range, and permutations of windows and of index rows.\<close>

lemma sum_list_upt_sum: "sum_list (map f [0..<n]) = sum f {..<n}"
  by (simp add: interv_sum_list_conv_sum_set_nat atLeast0LessThan)

lemma sum_upt_permute:
  fixes f :: "nat \<Rightarrow> 'a::comm_monoid_add"
  assumes "bij_betw s {..<n} {..<n}"
  shows "sum_list (map (\<lambda>l. f (s l)) [0..<n]) = sum_list (map f [0..<(n::nat)])"
  unfolding sum_list_upt_sum by (rule sum.reindex_bij_betw[OF assms])

lemma attend_entry_cong:
  assumes "\<And>l cc. l < len \<Longrightarrow> cc < cq \<Longrightarrow> qf cc * sc * kf l cc = qf' cc * sc * kf' l cc"
    and "\<And>l. l < len \<Longrightarrow> vf l = vf' l"
  shows "attend_entry len cq sc qf kf vf = attend_entry len cq sc qf' kf' vf'"
proof -
  have lg: "sum_list (map (\<lambda>cc. qf cc * sc * kf l cc) [0..<cq])
      = sum_list (map (\<lambda>cc. qf' cc * sc * kf' l cc) [0..<cq])" if "l < len" for l
    by (rule sum_list_upt_cong) (rule assms(1)[OF that])
  have Z: "sum_list (map (\<lambda>l'. exp (sum_list (map (\<lambda>cc. qf cc * sc * kf l' cc) [0..<cq]))) [0..<len])
      = sum_list (map (\<lambda>l'. exp (sum_list (map (\<lambda>cc. qf' cc * sc * kf' l' cc) [0..<cq]))) [0..<len])"
    by (rule sum_list_upt_cong) (simp add: lg)
  show ?thesis
    unfolding attend_entry_def Z
    by (rule sum_list_upt_cong) (simp add: lg assms(2))
qed

lemma attend_entry_permute:
  assumes "bij_betw s {..<len} {..<len}"
  shows "attend_entry len cq sc qf (\<lambda>l. kf (s l)) (\<lambda>l. vf (s l)) = attend_entry len cq sc qf kf vf"
proof -
  let ?e = "\<lambda>l. exp (sum_list (map (\<lambda>cc. qf cc * sc * kf l cc) [0..<cq]))"
  have Z: "sum_list (map (\<lambda>l'. ?e (s l')) [0..<len]) = sum_list (map ?e [0..<len])"
    by (rule sum_upt_permute[OF assms])
  have "attend_entry len cq sc qf (\<lambda>l. kf (s l)) (\<lambda>l. vf (s l))
      = sum_list (map (\<lambda>l. (\<lambda>l. ?e l / sum_list (map ?e [0..<len]) * vf l) (s l)) [0..<len])"
    unfolding attend_entry_def Z by simp
  also have "\<dots> = sum_list (map (\<lambda>l. ?e l / sum_list (map ?e [0..<len]) * vf l) [0..<len])"
    by (rule sum_upt_permute[OF assms])
  finally show ?thesis by (simp add: attend_entry_def)
qed

text \<open>A permutation of the windows permutes the pixels of the key/value sequence.\<close>

lemma window_permutation:
  assumes sel: "bij_betw sel {..<p2} {..<(p2::nat)}"
  shows "bij_betw (\<lambda>l. sel (l div w2) * w2 + l mod w2) {..<p2 * w2} {..<p2 * w2}"
proof -
  let ?s = "\<lambda>l. sel (l div w2) * w2 + l mod w2"
  have rng: "sel j < p2" if "j < p2" for j
    using sel that by (auto simp: bij_betw_def)
  have inj: "inj_on ?s {..<p2 * w2}"
  proof (rule inj_onI)
    fix l l' assume l: "l \<in> {..<p2 * w2}" and l': "l' \<in> {..<p2 * w2}" and e: "?s l = ?s l'"
    from l l' have w: "0 < w2" by (cases "w2 = 0") auto
    from l l' have d: "l div w2 < p2" "l' div w2 < p2"
      using div_mod_less by auto
    have "?s l div w2 = sel (l div w2)" "?s l' div w2 = sel (l' div w2)"
      "?s l mod w2 = l mod w2" "?s l' mod w2 = l' mod w2"
      using w by simp_all
    with e have "sel (l div w2) = sel (l' div w2)" and m: "l mod w2 = l' mod w2" by metis+
    with sel d have "l div w2 = l' div w2"
      by (auto simp: bij_betw_def inj_on_def)
    with m show "l = l'" by (metis div_mult_mod_eq)
  qed
  have "?s ` {..<p2 * w2} \<subseteq> {..<p2 * w2}"
  proof
    fix y assume "y \<in> ?s ` {..<p2 * w2}"
    then obtain l where l: "l < p2 * w2" and y: "y = ?s l" by auto
    from div_mod_less[OF l] have "l div w2 < p2" "l mod w2 < w2" by auto
    then have "?s l < p2 * w2" by (intro mixed_less rng)
    with y show "y \<in> {..<p2 * w2}" by simp
  qed
  with inj have "?s ` {..<p2 * w2} = {..<p2 * w2}"
    by (intro endo_inj_surj) simp_all
  with inj show ?thesis by (simp add: bij_betw_def)
qed

lemma row_permutation:
  assumes "length xs = p2" "distinct xs" "\<forall>j \<in> set xs. j < p2"
  shows "bij_betw (\<lambda>j. xs ! j) {..<p2} {..<p2}"
proof -
  have inj: "inj_on (\<lambda>j. xs ! j) {..<p2}"
    using assms(1,2) by (auto simp: inj_on_def nth_eq_iff_index_eq)
  have "(\<lambda>j. xs ! j) ` {..<p2} \<subseteq> {..<p2}"
    using assms(1,3) by auto
  with inj have "(\<lambda>j. xs ! j) ` {..<p2} = {..<p2}"
    by (intro endo_inj_surj) simp_all
  with inj show ?thesis by (simp add: bij_betw_def)
qed

lemma tensor_ext:
  fixes t u :: "'a tensor"
  assumes "wf t" "wf u" "shape t = shape u"
    and "\<And>idx. in_range (shape t) idx \<Longrightarrow> item t idx = item u idx"
  shows "t = u"
proof -
  have "data t = data u"
  proof (rule nth_equalityI)
    show "length (data t) = length (data u)" using assms(1,2,3) by (simp add: wf_def)
    fix k assume "k < length (data t)"
    then have k: "k < prod_list (shape t)" using assms(1) by (simp add: wf_def)
    from assms(4)[OF in_range_unravel[OF k]] show "data t ! k = data u ! k"
      using ravel_unravel[OF k] assms(3) by (simp add: item_def)
  qed
  with assms(3) show ?thesis by simp
qed


lemma item_row: "j < last (shape t) \<Longrightarrow> row t pre ! j = item t (pre @ [j])"
  by (simp add: row_def)

lemma routed_attention_items:
  assumes mw: "mul_weight (kv_gather M) \<noteq> ''hard''"
    and emb: "r_emb (router M) = None" and tk: "r_topk (router M) = p3"
    and hd: "num_heads M = m" "0 < m" "qk_dim M = m * cq" "dim' M = m * cv"
    and sqw: "shape q_win = [n, p3, m * cq]" and skw: "shape k_win = [n, p3, m * cq]"
    and sq: "shape q_pix = [n, p3, w3, m * cq]"
    and skv: "shape kv_pix = [n, p3, w2, m * cq + m * cv]"
  obtains out attn_weight r_weight r_idx where
    "TopkRouting_forward (router M) q_win k_win = Inr (r_weight, r_idx)"
    "forward_routed_attention M q_win k_win q_pix kv_pix = Inr (out, attn_weight)"
    "shape out = [n * p3, m, w3, cv]" "wf out"
    "shape r_weight = [n, p3, p3]"
    "\<And>b i. b < n \<Longrightarrow> i < p3 \<Longrightarrow> bij_betw (\<lambda>j. row r_idx [b, i] ! j) {..<p3} {..<p3}"
    "\<And>b i h x c. b < n \<Longrightarrow> i < p3 \<Longrightarrow> h < m \<Longrightarrow> x < w3 \<Longrightarrow> c < cv \<Longrightarrow>
        item out [b * p3 + i, h, x, c] =
          attend_entry (p3 * w2) cq (scale' M)
            (\<lambda>cc. item q_pix [b, i, x, h * cq + cc])
            (\<lambda>l cc. (if mul_weight (kv_gather M) = ''soft'' then item r_weight [b, i, l div w2] else 1)
                    * item kv_pix [b, row r_idx [b, i] ! (l div w2), l mod w2, h * cq + cc])
            (\<lambda>l. (if mul_weight (kv_gather M) = ''soft'' then item r_weight [b, i, l div w2] else 1)
                    * item kv_pix [b, row r_idx [b, i] ! (l div w2), l mod w2, m * cq + h * cv + c])"
proof -
  have e: "\<forall>lin. r_emb (router M) = Some lin \<longrightarrow> in_features lin = m * cq"
    by (simp add: emb)
  have k: "r_topk (router M) \<le> p3" by (simp add: tk)
  from TopkRouting_forward_rows[OF sqw skw k e] obtain r_weight r_idx where
    rf: "TopkRouting_forward (router M) q_win k_win = Inr (r_weight, r_idx)"
    and sri: "shape r_idx = [n, p3, p3]"
    and rows: "\<And>b i. b < n \<Longrightarrow> i < p3 \<Longrightarrow>
        length (row r_idx [b, i]) = p3 \<and> distinct (row r_idx [b, i])
        \<and> (\<forall>j \<in> set (row r_idx [b, i]). j < p3)"
    unfolding tk by blast
  have srw: "shape r_weight = [n, p3, p3]"
  proof -
    have "map_sum id (\<lambda>(w, i). (shape w, shape i)) (TopkRouting_forward (router M) q_win k_win)
        = Inr ([n, p3, p3], [n, p3, p3])"
      unfolding TopkRouting_forward_shape_link sqw skw
      using TopkRouting_forward_shape_3d[OF k e, of n] by (simp add: tk)
    with rf show ?thesis by simp
  qed
  have ri: "item r_idx [b, i, j] = row r_idx [b, i] ! j" if "j < p3" for b i j
    using that by (simp add: item_row sri)
  have perm: "bij_betw (\<lambda>j. row r_idx [b, i] ! j) {..<p3} {..<p3}" if "b < n" "i < p3" for b i
    using rows[OF that] by (intro row_permutation) auto
  have rng: "\<forall>b < n. \<forall>i < p3. \<forall>j < p3. item r_idx [b, i, j] < p3"
  proof (intro allI impI)
    fix b i j assume h: "b < n" "i < p3" "j < p3"
    from rows[OF h(1,2)] h(3) have "row r_idx [b, i] ! j \<in> set (row r_idx [b, i])"
      by (intro nth_mem) simp
    with rows[OF h(1,2)] have "row r_idx [b, i] ! j < p3" by blast
    then show "item r_idx [b, i, j] < p3" by (simp add: ri h)
  qed
  let ?g = "\<lambda>b i j. if mul_weight (kv_gather M) = ''soft'' then item r_weight [b, i, j] else (1::real)"
  from KVGather_forward_items[OF skv sri srw rng, of "kv_gather M"] mw obtain kvs where
    gf: "KVGather_forward (kv_gather M) r_idx r_weight kv_pix = Inr kvs"
    and skvs: "shape kvs = [n, p3, p3, w2, m * cq + m * cv]"
    and ikvs: "\<And>b i j p ch. b < n \<Longrightarrow> i < p3 \<Longrightarrow> j < p3 \<Longrightarrow> p < w2 \<Longrightarrow> ch < m * cq + m * cv \<Longrightarrow>
        item kvs [b, i, j, p, ch] = ?g b i j * item kv_pix [b, item r_idx [b, i, j], p, ch]"
    by auto
  from forward_attend_items[OF sq skvs hd(3,4,1,2)] obtain out aw where
    fa: "forward_attend M q_pix kvs = Inr (out, aw)"
    and so: "shape out = [n * p3, m, w3, cv]" and wo: "wf out"
    and io: "\<And>b i h x c. b < n \<Longrightarrow> i < p3 \<Longrightarrow> h < m \<Longrightarrow> x < w3 \<Longrightarrow> c < cv \<Longrightarrow>
            item out [b * p3 + i, h, x, c] =
              attend_entry (p3 * w2) cq (scale' M)
                (\<lambda>cc. item q_pix [b, i, x, h * cq + cc])
                (\<lambda>l cc. item kvs [b, i, l div w2, l mod w2, h * cq + cc])
                (\<lambda>l. item kvs [b, i, l div w2, l mod w2, m * cq + h * cv + c])"
    by blast
  have fr: "forward_routed_attention M q_win k_win q_pix kv_pix = Inr (out, aw)"
    by (simp add: forward_routed_attention_def rf gf fa)
  show thesis
  proof (rule that[OF rf fr so wo srw perm])
    fix b i h x c assume h: "b < n" "i < p3" "h < m" "x < w3" "c < cv"
    have sel: "item kvs [b, i, l div w2, l mod w2, ch]
        = ?g b i (l div w2) * item kv_pix [b, row r_idx [b, i] ! (l div w2), l mod w2, ch]"
      if l: "l < p3 * w2" and ch: "ch < m * cq + m * cv" for l ch
    proof -
      from div_mod_less[OF l] have j: "l div w2 < p3" and p: "l mod w2 < w2" by auto
      show ?thesis using ikvs[OF h(1,2) j p ch] ri[OF j] by simp
    qed
    have "item out [b * p3 + i, h, x, c] = attend_entry (p3 * w2) cq (scale' M)
                (\<lambda>cc. item q_pix [b, i, x, h * cq + cc])
                (\<lambda>l cc. item kvs [b, i, l div w2, l mod w2, h * cq + cc])
                (\<lambda>l. item kvs [b, i, l div w2, l mod w2, m * cq + h * cv + c])"
      by (rule io[OF h])
    also have "\<dots> = attend_entry (p3 * w2) cq (scale' M)
            (\<lambda>cc. item q_pix [b, i, x, h * cq + cc])
            (\<lambda>l cc. ?g b i (l div w2)
                    * item kv_pix [b, row r_idx [b, i] ! (l div w2), l mod w2, h * cq + cc])
            (\<lambda>l. ?g b i (l div w2)
                    * item kv_pix [b, row r_idx [b, i] ! (l div w2), l mod w2, m * cq + h * cv + c])"
    proof (rule attend_entry_cong)
      fix l cc assume l: "l < p3 * w2" and cc: "cc < cq"
      have "h * cq + cc < m * cq" using h(3) cc by (intro mixed_less)
      then have "h * cq + cc < m * cq + m * cv" by simp
      from sel[OF l this]
      show "item q_pix [b, i, x, h * cq + cc] * scale' M * item kvs [b, i, l div w2, l mod w2, h * cq + cc]
          = item q_pix [b, i, x, h * cq + cc] * scale' M * (?g b i (l div w2)
                    * item kv_pix [b, row r_idx [b, i] ! (l div w2), l mod w2, h * cq + cc])"
        by simp
    next
      fix l assume l: "l < p3 * w2"
      have "h * cv + c < m * cv" using h(3,5) by (intro mixed_less)
      then have "m * cq + h * cv + c < m * cq + m * cv" by simp
      from sel[OF l this]
      show "item kvs [b, i, l div w2, l mod w2, m * cq + h * cv + c] = ?g b i (l div w2)
                    * item kv_pix [b, row r_idx [b, i] ! (l div w2), l mod w2, m * cq + h * cv + c]"
        by simp
    qed
    finally show "item out [b * p3 + i, h, x, c] =
          attend_entry (p3 * w2) cq (scale' M)
            (\<lambda>cc. item q_pix [b, i, x, h * cq + cc])
            (\<lambda>l cc. ?g b i (l div w2)
                    * item kv_pix [b, row r_idx [b, i] ! (l div w2), l mod w2, h * cq + cc])
            (\<lambda>l. ?g b i (l div w2)
                    * item kv_pix [b, row r_idx [b, i] ! (l div w2), l mod w2, m * cq + h * cv + c])" .
  qed
qed






text \<open>
  In exact arithmetic, where a sum does not depend on the order of its summands, the
  result is then that of unrestricted attention over all windows.
\<close>

lemma routed_attention_plain:
  assumes mw: "mul_weight (kv_gather M) \<noteq> ''soft''" "mul_weight (kv_gather M) \<noteq> ''hard''"
    and emb: "r_emb (router M) = None" and tk: "r_topk (router M) = p3"
    and hd: "num_heads M = m" "0 < m" "qk_dim M = m * cq" "dim' M = m * cv"
    and sqw: "shape q_win = [n, p3, m * cq]" and skw: "shape k_win = [n, p3, m * cq]"
    and sq: "shape q_pix = [n, p3, w3, m * cq]"
    and skv: "shape kv_pix = [n, p3, w2, m * cq + m * cv]"
  shows "\<exists>out attn_weight.
           forward_routed_attention M q_win k_win q_pix kv_pix = Inr (out, attn_weight)
         \<and> out = unrestricted_attention M q_pix kv_pix"
proof -
  obtain out aw r_weight r_idx where
    fr: "forward_routed_attention M q_win k_win q_pix kv_pix = Inr (out, aw)"
    and so: "shape out = [n * p3, m, w3, cv]" and wo: "wf out"
    and perm: "\<And>b i. b < n \<Longrightarrow> i < p3 \<Longrightarrow> bij_betw (\<lambda>j. row r_idx [b, i] ! j) {..<p3} {..<p3}"
    and io: "\<And>b i h x c. b < n \<Longrightarrow> i < p3 \<Longrightarrow> h < m \<Longrightarrow> x < w3 \<Longrightarrow> c < cv \<Longrightarrow>
        item out [b * p3 + i, h, x, c] =
          attend_entry (p3 * w2) cq (scale' M)
            (\<lambda>cc. item q_pix [b, i, x, h * cq + cc])
            (\<lambda>l cc. (if mul_weight (kv_gather M) = ''soft'' then item r_weight [b, i, l div w2] else 1)
                    * item kv_pix [b, row r_idx [b, i] ! (l div w2), l mod w2, h * cq + cc])
            (\<lambda>l. (if mul_weight (kv_gather M) = ''soft'' then item r_weight [b, i, l div w2] else 1)
                    * item kv_pix [b, row r_idx [b, i] ! (l div w2), l mod w2, m * cq + h * cv + c])"
    by (rule routed_attention_items[OF mw(2) emb tk hd sqw skw sq skv]) (rule that)
  let ?U = "unrestricted_attention M q_pix kv_pix"
  have sU: "shape ?U = [n * p3, m, w3, cv]"
    using hd by (simp add: unrestricted_attention_def Let_def sq skv)
  have wU: "wf ?U" by (simp add: unrestricted_attention_def Let_def)
  have "out = ?U"
  proof (rule tensor_ext[OF wo wU])
    show "shape out = shape ?U" by (simp add: so sU)
    fix idx assume "in_range (shape out) idx"
    then obtain B h x c where idx: "idx = [B, h, x, c]"
      and B: "B < n * p3" and h: "h < m" and x: "x < w3" and c: "c < cv"
      unfolding so in_range_4 by blast
    let ?b = "B div p3" and ?i = "B mod p3"
    from B have p3: "0 < p3" by (cases "p3 = 0") auto
    have b: "?b < n" using B by (simp add: less_mult_imp_div_less)
    have i: "?i < p3" using p3 by simp
    let ?pi = "\<lambda>j. row r_idx [?b, ?i] ! j"
    let ?s = "\<lambda>l. ?pi (l div w2) * w2 + l mod w2"
    let ?qf = "\<lambda>cc. item q_pix [?b, ?i, x, h * cq + cc]"
    let ?kf = "\<lambda>l cc. item kv_pix [?b, l div w2, l mod w2, h * cq + cc]"
    let ?vf = "\<lambda>l. item kv_pix [?b, l div w2, l mod w2, m * cq + h * cv + c]"
    have sdm: "?s l div w2 = ?pi (l div w2) \<and> ?s l mod w2 = l mod w2" if l: "l < p3 * w2" for l
    proof -
      from div_mod_less[OF l] have "l mod w2 < w2" by auto
      then show ?thesis by simp
    qed
    have "item out idx = item out [?b * p3 + ?i, h, x, c]" by (simp add: idx)
    also have "\<dots> = attend_entry (p3 * w2) cq (scale' M) ?qf
            (\<lambda>l cc. (if mul_weight (kv_gather M) = ''soft'' then item r_weight [?b, ?i, l div w2] else 1)
                    * item kv_pix [?b, ?pi (l div w2), l mod w2, h * cq + cc])
            (\<lambda>l. (if mul_weight (kv_gather M) = ''soft'' then item r_weight [?b, ?i, l div w2] else 1)
                    * item kv_pix [?b, ?pi (l div w2), l mod w2, m * cq + h * cv + c])"
      by (rule io[OF b i h x c])
    also have "\<dots> = attend_entry (p3 * w2) cq (scale' M) ?qf (\<lambda>l. ?kf (?s l)) (\<lambda>l. ?vf (?s l))"
      by (rule attend_entry_cong) (simp_all add: mw(1) sdm)
    also have "\<dots> = attend_entry (p3 * w2) cq (scale' M) ?qf ?kf ?vf"
      by (rule attend_entry_permute[OF window_permutation[OF perm[OF b i]]])
    also have "\<dots> = item ?U idx"
    proof -
      have "in_range [n * p3, m, w3, cv] [B, h, x, c]" using B h x c by simp
      then show ?thesis
        unfolding idx unrestricted_attention_def Let_def
        using p3 hd by (simp add: item_tabulate sq skv)
    qed
    finally show "item out idx = item ?U idx" .
  qed
  with fr show ?thesis by blast
qed


lemma item_zero_pixels: "item zero_pixels [0, i, 0, 0] = 0" if "i < 8"
  using that by (simp add: item_def zero_pixels_def)








end
